theory Spec2Isabelle
  imports Main "HOL-Library.AList"
begin

section \<open>The chat server of server/index.js\<close>

text \<open>
  The server keeps two JavaScript Maps, \<open>chatRooms\<close> and \<open>connectedUsers\<close>, and talks to
  its clients through socket.io. A JavaScript Map keeps its keys in insertion order;
  \<open>set\<close> on a present key replaces the value in place and on a new key appends,
  \<open>delete\<close> removes the key. An association list with \<^const>\<open>AList.update\<close>,
  \<^const>\<open>AList.delete\<close> and \<^const>\<open>map_of\<close> is exactly that. Objects stored in a Map
  are mutated in place by the source; the model writes the changed object back under
  its key.

  A string is the list of the bytes of its UTF-8 encoding (an unpaired surrogate, which a
  JavaScript string may hold, on three bytes like the other code points of its range).
  The source compares strings, tests whether a string is empty, and calls \<open>trim\<close> and
  \<open>toLowerCase\<close> on room names; two strings are equal exactly when their encodings
  are, and a string is empty exactly when its encoding is. The human-readable message
  texts of the payloads are left out; every other field of a payload is kept.

  Each handler is a function from the server state, the values the handler reads from
  the clock and the random generator, the id of the socket whose event it handles and
  the event's data, to the new state and the list of payloads sent, each with the socket
  that receives it.
\<close>

subsection \<open>Data\<close>

type_synonym socket_id = string
type_synonym room_id = string

text \<open>An entry of \<open>room.users\<close>.\<close>

record member =
  socketId :: socket_id
  nickname :: string
  joinedAt :: nat
  isOwner :: bool

text \<open>A value of \<open>chatRooms\<close>. The field \<open>id\<close> is \<open>rid\<close> and \<open>name\<close> is \<open>rname\<close> here.\<close>

record chat_room =
  rid :: room_id
  rname :: string
  owner :: socket_id
  ownerName :: string
  users :: "member list"
  createdAt :: nat
  isPrivate :: bool

text \<open>A value of \<open>connectedUsers\<close>: \<open>{username, room, isOwner}\<close>.\<close>

record user_info =
  username :: string
  cu_room :: room_id
  cu_isOwner :: bool

text \<open>
  The state. \<open>sockets\<close> is socket.io's \<open>io.sockets.sockets\<close>: the connected sockets, each
  with the rooms it has joined (\<open>socket.rooms\<close>). The private room that socket.io names
  after the socket's own id is left out: the handlers address rooms by keys of
  \<open>chatRooms\<close> only.
\<close>

record server =
  chatRooms :: "(room_id \<times> chat_room) list"
  connectedUsers :: "(socket_id \<times> user_info) list"
  sockets :: "(socket_id \<times> room_id list) list"

text \<open>
  What a handler reads from outside: \<open>new Date()\<close>, the result of \<open>generateRoomId()\<close>
  (\<open>room_<time>_<random>\<close>), the id given to a chat message (\<open>msg_<time>_<random>\<close>),
  and \<open>String.prototype.toLowerCase\<close> of the JavaScript engine. The last is the
  lower-casing of Unicode, which is no code of the repository: the handlers are
  defined for whatever function it is, and a statement that needs a property of it
  says which.
\<close>

record env =
  now :: nat
  newRoomId :: room_id
  newMsgId :: string
  toLowerCase :: "string \<Rightarrow> string"

text \<open>The data of the events received.\<close>

record create_data =
  cd_user :: string
  roomName :: string

record room_data =
  rd_user :: string
  rd_room :: room_id

record chat_msg =
  msg_user :: string
  msg_room :: room_id
  message :: string
  timestamp :: nat

text \<open>The payloads sent.\<close>

record member_view =
  mv_nickname :: string
  mv_isOwner :: bool
  mv_joinedAt :: nat

record room_summary =
  rs_id :: room_id
  rs_name :: string
  rs_owner :: string
  userCount :: nat
  rs_users :: "string list"
  rs_createdAt :: nat
  rs_isPrivate :: bool

datatype chat_error = InvalidMessageData | NoSuchRoom | NotInRoom

datatype payload =
    RoomCreationFailed string
  | RoomCreated room_id string string bool nat nat
  | JoinFailed string
  | UserJoined string nat
  | JoinConfirmed room_id string string bool nat "member_view list" string nat
  | ErrorEvent chat_error
  | ChatMessage chat_msg string nat socket_id bool
  | LeaveFailed string
  | UserLeft string nat bool
  | OwnershipTransferred room_id string nat
  | OwnerChanged string nat
  | LeaveConfirmed room_id string string bool "string option" nat
  | RoomsList "room_summary list" nat nat

type_synonym emission = "socket_id \<times> payload"

subsection \<open>Strings\<close>

text \<open>
  \<open>String.prototype.trim\<close> removes from both ends of a string the code points that
  ECMAScript calls white space and line terminators: U+0009 to U+000D, U+0020, U+00A0,
  U+1680, U+2000 to U+200A, U+2028, U+2029, U+202F, U+205F, U+3000 and U+FEFF. Each is
  listed here with its UTF-8 encoding. A string of UTF-8 begins (ends) with one of these
  code points exactly when its bytes begin (end) with the encoding of one.
\<close>

definition whiteSpace :: "string list" where
  "whiteSpace =
     [[CHR 0x09], [CHR 0x0A], [CHR 0x0B], [CHR 0x0C], [CHR 0x0D], [CHR 0x20],
      [CHR 0xC2, CHR 0xA0],
      [CHR 0xE1, CHR 0x9A, CHR 0x80],
      [CHR 0xE2, CHR 0x80, CHR 0x80], [CHR 0xE2, CHR 0x80, CHR 0x81],
      [CHR 0xE2, CHR 0x80, CHR 0x82], [CHR 0xE2, CHR 0x80, CHR 0x83],
      [CHR 0xE2, CHR 0x80, CHR 0x84], [CHR 0xE2, CHR 0x80, CHR 0x85],
      [CHR 0xE2, CHR 0x80, CHR 0x86], [CHR 0xE2, CHR 0x80, CHR 0x87],
      [CHR 0xE2, CHR 0x80, CHR 0x88], [CHR 0xE2, CHR 0x80, CHR 0x89],
      [CHR 0xE2, CHR 0x80, CHR 0x8A],
      [CHR 0xE2, CHR 0x80, CHR 0xA8], [CHR 0xE2, CHR 0x80, CHR 0xA9],
      [CHR 0xE2, CHR 0x80, CHR 0xAF],
      [CHR 0xE2, CHR 0x81, CHR 0x9F],
      [CHR 0xE3, CHR 0x80, CHR 0x80],
      [CHR 0xEF, CHR 0xBB, CHR 0xBF]]"

text \<open>What is left of \<open>s\<close> when every leading sequence of the list \<open>ws\<close> is taken away.\<close>

function trimStart :: "string list \<Rightarrow> string \<Rightarrow> string" where
  "trimStart ws s =
     (case find (\<lambda>w. w \<noteq> [] \<and> take (length w) s = w) ws of
        None \<Rightarrow> s
      | Some w \<Rightarrow> trimStart ws (drop (length w) s))"
  by pat_completeness auto

termination
proof (relation "measure (\<lambda>(ws, s). length s)")
  show "wf (measure (\<lambda>(ws, s). length s))"
    by simp
next
  fix ws :: "string list" and s w :: string
  assume "find (\<lambda>w. w \<noteq> [] \<and> take (length w) s = w) ws = Some w"
  then have w: "w \<noteq> []" "take (length w) s = w"
    by (auto simp: find_Some_iff)
  have "length w = length (take (length w) s)"
    using w(2) by simp
  then have "length w \<le> length s"
    by (simp add: min_def split: if_splits)
  with w(1) show "((ws, drop (length w) s), (ws, s)) \<in> measure (\<lambda>(ws, s). length s)"
    by (cases w) auto
qed

declare trimStart.simps [simp del]

definition trim :: "string \<Rightarrow> string" where
  "trim s = rev (trimStart (map rev whiteSpace) (rev (trimStart whiteSpace s)))"

subsection \<open>socket.io\<close>

text \<open>\<open>socket.join(room)\<close> and \<open>socket.leave(room)\<close> of the socket \<open>sid\<close>.\<close>

definition socket_join :: "server \<Rightarrow> socket_id \<Rightarrow> room_id \<Rightarrow> server" where
  "socket_join s sid r =
     s\<lparr>sockets := AList.map_entry sid (\<lambda>rs. if r \<in> set rs then rs else rs @ [r]) (sockets s)\<rparr>"

definition socket_leave :: "server \<Rightarrow> socket_id \<Rightarrow> room_id \<Rightarrow> server" where
  "socket_leave s sid r = s\<lparr>sockets := AList.map_entry sid (removeAll r) (sockets s)\<rparr>"

text \<open>\<open>socket.emit\<close>, \<open>io.emit\<close>, \<open>io.to(room).emit\<close> and \<open>socket.to(room).emit\<close>.\<close>

definition socket_emit :: "socket_id \<Rightarrow> payload \<Rightarrow> emission list" where
  "socket_emit sid p = [(sid, p)]"

definition io_emit :: "server \<Rightarrow> payload \<Rightarrow> emission list" where
  "io_emit s p = map (\<lambda>c. (fst c, p)) (sockets s)"

definition io_to :: "server \<Rightarrow> room_id \<Rightarrow> payload \<Rightarrow> emission list" where
  "io_to s r p = map (\<lambda>c. (fst c, p)) (filter (\<lambda>c. r \<in> set (snd c)) (sockets s))"

definition socket_to :: "server \<Rightarrow> socket_id \<Rightarrow> room_id \<Rightarrow> payload \<Rightarrow> emission list" where
  "socket_to s sid r p =
     map (\<lambda>c. (fst c, p)) (filter (\<lambda>c. r \<in> set (snd c) \<and> fst c \<noteq> sid) (sockets s))"

subsection \<open>Helpers of the source\<close>

text \<open>\<open>Array.prototype.findIndex\<close> (\<open>None\<close> for -1) and \<open>splice(i, 1)\<close>.\<close>

primrec findIndex :: "('a \<Rightarrow> bool) \<Rightarrow> 'a list \<Rightarrow> nat option" where
  "findIndex P [] = None"
| "findIndex P (x # xs) = (if P x then Some 0 else map_option Suc (findIndex P xs))"

definition splice1 :: "nat \<Rightarrow> 'a list \<Rightarrow> 'a list" where
  "splice1 i xs = take i xs @ drop (Suc i) xs"

text \<open>
  \<open>transferOwnership(roomId)\<close>: a missing or empty room is deleted and the result is
  \<open>null\<close>; otherwise \<open>users[0]\<close> becomes the owner and is returned.
\<close>

definition transferOwnership :: "server \<Rightarrow> room_id \<Rightarrow> server \<times> member option" where
  "transferOwnership s roomId =
     (case map_of (chatRooms s) roomId of
        None \<Rightarrow> (s\<lparr>chatRooms := AList.delete roomId (chatRooms s)\<rparr>, None)
      | Some room \<Rightarrow>
          (case users room of
             [] \<Rightarrow> (s\<lparr>chatRooms := AList.delete roomId (chatRooms s)\<rparr>, None)
           | newOwner # _ \<Rightarrow>
               (s\<lparr>chatRooms :=
                    AList.update roomId
                      (room\<lparr>owner := socketId newOwner, ownerName := nickname newOwner\<rparr>)
                      (chatRooms s)\<rparr>,
                Some newOwner)))"

text \<open>\<open>removeUserFromRoom(roomId, socketId)\<close>, with its boolean result.\<close>

definition removeUserFromRoom :: "server \<Rightarrow> room_id \<Rightarrow> socket_id \<Rightarrow> server \<times> bool" where
  "removeUserFromRoom s roomId sid =
     (case map_of (chatRooms s) roomId of
        None \<Rightarrow> (s, False)
      | Some room \<Rightarrow>
          (case findIndex (\<lambda>u. socketId u = sid) (users room) of
             None \<Rightarrow> (s, False)
           | Some userIndex \<Rightarrow>
               (s\<lparr>chatRooms :=
                    AList.update roomId (room\<lparr>users := splice1 userIndex (users room)\<rparr>)
                      (chatRooms s)\<rparr>,
                True)))"

text \<open>The list built by \<open>broadcastRoomsList\<close> and \<open>sendRoomsListToClient\<close>.\<close>

definition summary :: "chat_room \<Rightarrow> room_summary" where
  "summary room =
     \<lparr>rs_id = rid room, rs_name = rname room, rs_owner = ownerName room,
      userCount = length (users room), rs_users = map nickname (users room),
      rs_createdAt = createdAt room, rs_isPrivate = isPrivate room\<rparr>"

definition roomsList :: "server \<Rightarrow> room_summary list" where
  "roomsList s = map summary (map snd (chatRooms s))"

definition broadcastRoomsList :: "server \<Rightarrow> env \<Rightarrow> emission list" where
  "broadcastRoomsList s e =
     io_emit s (RoomsList (roomsList s) (length (roomsList s)) (now e))"

definition sendRoomsListToClient :: "server \<Rightarrow> env \<Rightarrow> socket_id \<Rightarrow> emission list" where
  "sendRoomsListToClient s e sid =
     socket_emit sid (RoomsList (roomsList s) (length (roomsList s)) (now e))"

subsection \<open>The handlers\<close>

text \<open>\<open>io.on('connection')\<close>: socket.io registers the socket; the handler only logs.\<close>

definition connection :: "server \<Rightarrow> socket_id \<Rightarrow> server" where
  "connection s sid = s\<lparr>sockets := AList.update sid [] (sockets s)\<rparr>"

text \<open>\<open>socket.on('create room')\<close>.\<close>

definition create_room :: "server \<Rightarrow> env \<Rightarrow> socket_id \<Rightarrow> create_data \<Rightarrow> server \<times> emission list" where
  "create_room s e sid data =
     (if roomName data = [] \<or> length (trim (roomName data)) = 0
      then (s, socket_emit sid (RoomCreationFailed ''INVALID_ROOM_NAME''))
      else if list_ex (\<lambda>room. toLowerCase e (rname room) = toLowerCase e (trim (roomName data)))
                (map snd (chatRooms s))
      then (s, socket_emit sid (RoomCreationFailed ''ROOM_NAME_EXISTS''))
      else
        let roomId = newRoomId e;
            name = trim (roomName data);
            newRoom = \<lparr>rid = roomId, rname = name, owner = sid, ownerName = cd_user data,
                       users = [\<lparr>socketId = sid, nickname = cd_user data,
                                 joinedAt = now e, isOwner = True\<rparr>],
                       createdAt = now e, isPrivate = False\<rparr>;
            s1 = s\<lparr>chatRooms := AList.update roomId newRoom (chatRooms s)\<rparr>;
            s2 = s1\<lparr>connectedUsers :=
                      AList.update sid
                        \<lparr>username = cd_user data, cu_room = roomId, cu_isOwner = True\<rparr>
                        (connectedUsers s1)\<rparr>;
            s3 = socket_join s2 sid roomId
        in (s3,
            socket_emit sid (RoomCreated roomId name (cd_user data) True 1 (now e))
            @ broadcastRoomsList s3 e))"

text \<open>
  \<open>socket.on('join')\<close>. The object \<open>room\<close> read at the start is the one the handler
  changes later: the user removed before that is removed from a room with another key.
\<close>

definition join :: "server \<Rightarrow> env \<Rightarrow> socket_id \<Rightarrow> room_data \<Rightarrow> server \<times> emission list" where
  "join s e sid data =
     (case map_of (chatRooms s) (rd_room data) of
        None \<Rightarrow> (s, socket_emit sid (JoinFailed ''ROOM_NOT_FOUND''))
      | Some room \<Rightarrow>
          let s1 = (case map_of (connectedUsers s) sid of
                      None \<Rightarrow> s
                    | Some currentUser \<Rightarrow>
                        if cu_room currentUser \<noteq> rd_room data
                        then fst (removeUserFromRoom
                                    (socket_leave s sid (cu_room currentUser))
                                    (cu_room currentUser) sid)
                        else s);
              s2 = s1\<lparr>connectedUsers :=
                        AList.update sid
                          \<lparr>username = rd_user data, cu_room = rd_room data,
                           cu_isOwner = (owner room = sid)\<rparr>
                          (connectedUsers s1)\<rparr>;
              room' = (case findIndex (\<lambda>u. socketId u = sid) (users room) of
                         None \<Rightarrow>
                           room\<lparr>users := users room @
                                  [\<lparr>socketId = sid, nickname = rd_user data,
                                    joinedAt = now e, isOwner = (owner room = sid)\<rparr>]\<rparr>
                       | Some _ \<Rightarrow> room);
              s3 = (case findIndex (\<lambda>u. socketId u = sid) (users room) of
                      None \<Rightarrow> s2\<lparr>chatRooms := AList.update (rd_room data) room' (chatRooms s2)\<rparr>
                    | Some _ \<Rightarrow> s2);
              s4 = socket_join s3 sid (rd_room data)
          in (s4,
              socket_to s4 sid (rd_room data) (UserJoined (rd_user data) (now e))
              @ socket_emit sid
                  (JoinConfirmed (rd_room data) (rname room') (ownerName room')
                     (owner room' = sid) (length (users room'))
                     (map (\<lambda>u. \<lparr>mv_nickname = nickname u, mv_isOwner = isOwner u,
                                 mv_joinedAt = joinedAt u\<rparr>) (users room'))
                     (rd_user data) (now e))
              @ broadcastRoomsList s4 e))"

text \<open>\<open>socket.on('chat message')\<close>.\<close>

definition chat_message :: "server \<Rightarrow> env \<Rightarrow> socket_id \<Rightarrow> chat_msg \<Rightarrow> server \<times> emission list" where
  "chat_message s e sid msg =
     (if msg_user msg = [] \<or> message msg = [] \<or> msg_room msg = []
      then (s, socket_emit sid (ErrorEvent InvalidMessageData))
      else
        (case map_of (chatRooms s) (msg_room msg) of
           None \<Rightarrow> (s, socket_emit sid (ErrorEvent NoSuchRoom))
         | Some room \<Rightarrow>
             (case find (\<lambda>u. socketId u = sid) (users room) of
                None \<Rightarrow> (s, socket_emit sid (ErrorEvent NotInRoom))
              | Some userInRoom \<Rightarrow>
                  (s, io_to s (msg_room msg)
                        (ChatMessage msg (newMsgId e) (now e) sid (owner room = sid))))))"

text \<open>
  The block that \<open>leave\<close> and \<open>disconnect\<close> both run when the one who went was the
  owner (the same text twice in the source). \<open>room\<close> is the room object after the
  removal. The result is the state, \<open>newOwner\<close>, \<open>roomDeleted\<close> and what was sent.
\<close>

definition ownerGone ::
  "server \<Rightarrow> env \<Rightarrow> room_id \<Rightarrow> chat_room \<Rightarrow> server \<times> member option \<times> bool \<times> emission list" where
  "ownerGone s e roomId room =
     (if length (users room) > 0
      then
        (case transferOwnership s roomId of
           (s1, None) \<Rightarrow> (s1, None, False, [])
         | (s1, Some newOwner) \<Rightarrow>
             (case map_of (sockets s1) (socketId newOwner) of
                None \<Rightarrow>
                  (s1, Some newOwner, False,
                   io_to s1 roomId (OwnerChanged (nickname newOwner) (now e)))
              | Some newOwnerSocket \<Rightarrow>
                  let s2 = (case map_of (connectedUsers s1) (socketId newOwner) of
                              None \<Rightarrow> s1
                            | Some userData \<Rightarrow>
                                s1\<lparr>connectedUsers :=
                                     AList.update (socketId newOwner)
                                       (userData\<lparr>cu_isOwner := True\<rparr>)
                                       (connectedUsers s1)\<rparr>)
                  in (s2, Some newOwner, False,
                      socket_emit (socketId newOwner)
                        (OwnershipTransferred roomId (rname room) (now e))
                      @ io_to s2 roomId (OwnerChanged (nickname newOwner) (now e)))))
      else (s\<lparr>chatRooms := AList.delete roomId (chatRooms s)\<rparr>, None, True, []))"

text \<open>The room object of key \<open>roomId\<close> as it is in \<open>s\<close>; \<open>room\<close> if the key is gone.\<close>

definition roomObject :: "server \<Rightarrow> room_id \<Rightarrow> chat_room \<Rightarrow> chat_room" where
  "roomObject s roomId room = (case map_of (chatRooms s) roomId of None \<Rightarrow> room | Some r \<Rightarrow> r)"

text \<open>\<open>socket.on('leave')\<close>.\<close>

definition leave :: "server \<Rightarrow> env \<Rightarrow> socket_id \<Rightarrow> room_data \<Rightarrow> server \<times> emission list" where
  "leave s e sid data =
     (case map_of (chatRooms s) (rd_room data) of
        None \<Rightarrow> (s, socket_emit sid (LeaveFailed ''ROOM_NOT_FOUND''))
      | Some room \<Rightarrow>
          let wasOwner = (owner room = sid);
              s1 = socket_leave s sid (rd_room data);
              s2 = fst (removeUserFromRoom s1 (rd_room data) sid);
              out1 = socket_to s2 sid (rd_room data) (UserLeft (rd_user data) (now e) wasOwner);
              r = (if wasOwner
                   then ownerGone s2 e (rd_room data) (roomObject s2 (rd_room data) room)
                   else (s2, None, False, []));
              s3 = fst r;
              newOwner = fst (snd r);
              roomDeleted = fst (snd (snd r));
              out2 = snd (snd (snd r));
              s4 = s3\<lparr>connectedUsers := AList.delete sid (connectedUsers s3)\<rparr>
          in (s4,
              out1 @ out2
              @ socket_emit sid
                  (LeaveConfirmed (rd_room data) (rname room) (rd_user data) roomDeleted
                     (map_option nickname newOwner) (now e))
              @ broadcastRoomsList s4 e))"

text \<open>\<open>socket.on('get rooms')\<close>.\<close>

definition get_rooms :: "server \<Rightarrow> env \<Rightarrow> socket_id \<Rightarrow> server \<times> emission list" where
  "get_rooms s e sid = (s, sendRoomsListToClient s e sid)"

text \<open>
  \<open>socket.on('disconnect')\<close>. socket.io has taken the socket out of every room and out
  of \<open>io.sockets.sockets\<close> before the handler runs (the source says so where it sends
  \<open>user left\<close>: the socket is already closed and cannot receive the message).
\<close>

definition disconnect :: "server \<Rightarrow> env \<Rightarrow> socket_id \<Rightarrow> server \<times> emission list" where
  "disconnect s e sid =
     (let s0 = s\<lparr>sockets := AList.delete sid (sockets s)\<rparr>
      in case map_of (connectedUsers s0) sid of
           None \<Rightarrow> (s0, [])
         | Some disconnectedUser \<Rightarrow>
             let r = (case map_of (chatRooms s0) (cu_room disconnectedUser) of
                        None \<Rightarrow> (s0, [])
                      | Some room \<Rightarrow>
                          let wasOwner = cu_isOwner disconnectedUser;
                              s1 = fst (removeUserFromRoom s0 (cu_room disconnectedUser) sid);
                              out1 = socket_to s1 sid (cu_room disconnectedUser)
                                       (UserLeft (username disconnectedUser) (now e) wasOwner);
                              g = (if wasOwner
                                   then ownerGone s1 e (cu_room disconnectedUser)
                                          (roomObject s1 (cu_room disconnectedUser) room)
                                   else (s1, None, False, []));
                              s2 = fst g;
                              out2 = snd (snd (snd g))
                          in (s2, out1 @ out2 @ broadcastRoomsList s2 e));
                 s3 = fst r
             in (s3\<lparr>connectedUsers := AList.delete sid (connectedUsers s3)\<rparr>, snd r))"

subsection \<open>Example runs\<close>

text \<open>
  Three sockets connect. Alice (socket A) creates the room Lobby, Bob (socket B) and
  Carol (socket C) join it, or Carol creates a room of her own.
\<close>

definition startup :: server where
  "startup = \<lparr>chatRooms = [], connectedUsers = [], sockets = []\<rparr>"

text \<open>
  The names of the example runs are strings of ASCII characters. On such a string
  \<open>String.prototype.toLowerCase\<close> changes the letters A to Z and nothing else; the runs
  take that function for it.
\<close>

definition lowerChar :: "char \<Rightarrow> char" where
  "lowerChar c =
     (case map_of (zip ''ABCDEFGHIJKLMNOPQRSTUVWXYZ'' ''abcdefghijklmnopqrstuvwxyz'') c of
        None \<Rightarrow> c
      | Some l \<Rightarrow> l)"

definition asciiLower :: "string \<Rightarrow> string" where
  "asciiLower s = map lowerChar s"

definition at :: "nat \<Rightarrow> room_id \<Rightarrow> env" where
  "at t r = \<lparr>now = t, newRoomId = r, newMsgId = ''msg_1'', toLowerCase = asciiLower\<rparr>"

definition connected3 :: server where
  "connected3 = connection (connection (connection startup ''A'') ''B'') ''C''"

definition lobby_A :: server where
  "lobby_A = fst (create_room connected3 (at 1 ''room_1'') ''A''
                    \<lparr>cd_user = ''alice'', roomName = ''Lobby''\<rparr>)"

definition lobby_AB :: server where
  "lobby_AB = fst (join lobby_A (at 2 ''room_2'') ''B''
                     \<lparr>rd_user = ''bob'', rd_room = ''room_1''\<rparr>)"

definition lobby_ABC :: server where
  "lobby_ABC = fst (join lobby_AB (at 3 ''room_2'') ''C''
                      \<lparr>rd_user = ''carol'', rd_room = ''room_1''\<rparr>)"

definition two_rooms :: server where
  "two_rooms = fst (create_room lobby_AB (at 3 ''room_2'') ''C''
                      \<lparr>cd_user = ''carol'', roomName = ''Games''\<rparr>)"

definition two_single :: server where
  "two_single = fst (create_room lobby_A (at 3 ''room_2'') ''C''
                       \<lparr>cd_user = ''carol'', roomName = ''Games''\<rparr>)"

text \<open>
  From \<open>two_rooms\<close>, Bob asks to leave Carol's room, where he is not, and then his
  socket closes.
\<close>

definition ghost_member :: server where
  "ghost_member =
     fst (disconnect
            (fst (leave two_rooms (at 4 ''room_3'') ''B''
                    \<lparr>rd_user = ''bob'', rd_room = ''room_2''\<rparr>))
            (at 5 ''room_3'') ''B'')"

text \<open>
  From \<open>lobby_AB\<close>, Alice, the owner of the Lobby, creates a second room without
  leaving the first.
\<close>

definition owner_elsewhere :: server where
  "owner_elsewhere = fst (create_room lobby_AB (at 3 ''room_2'') ''A''
                            \<lparr>cd_user = ''alice'', roomName = ''Games''\<rparr>)"

subsection \<open>The states the server can be in\<close>

text \<open>
  The events socket.io hands to the server, and the one entry point that runs the
  handler of an event.
\<close>

datatype event =
    Connect socket_id
  | CreateRoom socket_id create_data
  | Join socket_id room_data
  | Chat socket_id chat_msg
  | Leave socket_id room_data
  | GetRooms socket_id
  | Disconnect socket_id

fun step :: "server \<Rightarrow> env \<Rightarrow> event \<Rightarrow> server \<times> emission list" where
  "step s e (Connect a) = (connection s a, [])"
| "step s e (CreateRoom a d) = create_room s e a d"
| "step s e (Join a d) = join s e a d"
| "step s e (Chat a m) = chat_message s e a m"
| "step s e (Leave a d) = leave s e a d"
| "step s e (GetRooms a) = get_rooms s e a"
| "step s e (Disconnect a) = disconnect s e a"

text \<open>
  What socket.io and the id generator guarantee. A socket that connects has an id that
  has not been used: it is not connected, has no entry in \<open>connectedUsers\<close> and is in no
  room. Every other event comes from a connected socket. \<open>generateRoomId()\<close> does not
  return the key of a room of the store.
\<close>

definition connected :: "server \<Rightarrow> socket_id \<Rightarrow> bool" where
  "connected s a = (a \<in> fst ` set (sockets s))"

fun enabled :: "server \<Rightarrow> env \<Rightarrow> event \<Rightarrow> bool" where
  "enabled s e (Connect a) =
     (\<not> connected s a \<and> a \<notin> fst ` set (connectedUsers s) \<and>
      list_all (\<lambda>c. a \<notin> socketId ` set (users (snd c))) (chatRooms s))"
| "enabled s e (CreateRoom a d) = (connected s a \<and> newRoomId e \<notin> fst ` set (chatRooms s))"
| "enabled s e (Join a d) = connected s a"
| "enabled s e (Chat a m) = connected s a"
| "enabled s e (Leave a d) = connected s a"
| "enabled s e (GetRooms a) = connected s a"
| "enabled s e (Disconnect a) = connected s a"

inductive reachable :: "server \<Rightarrow> bool" where
  reachable_startup: "reachable startup"
| reachable_step: "reachable s \<Longrightarrow> enabled s e ev \<Longrightarrow> reachable (fst (step s e ev))"

text \<open>
  Properties that every reachable state has: a socket is connected once; the members of
  a room are listed once each; no room name is empty; only connected sockets have an
  entry in \<open>connectedUsers\<close>; a connected socket has joined exactly the rooms of the
  store that list it as a member; the entry of a room's owner that names the room has
  the owner flag.
\<close>

definition inv_sockets :: "server \<Rightarrow> bool" where
  "inv_sockets s = distinct (map fst (sockets s))"

definition inv_members :: "server \<Rightarrow> bool" where
  "inv_members s =
     (\<forall>k r. map_of (chatRooms s) k = Some r \<longrightarrow> distinct (map socketId (users r)))"

definition inv_names :: "server \<Rightarrow> bool" where
  "inv_names s = (\<forall>k r. map_of (chatRooms s) k = Some r \<longrightarrow> rname r \<noteq> [])"

definition inv_sessions :: "server \<Rightarrow> bool" where
  "inv_sessions s =
     (\<forall>t cu. map_of (connectedUsers s) t = Some cu \<longrightarrow> map_of (sockets s) t \<noteq> None)"

definition inv_joined :: "server \<Rightarrow> bool" where
  "inv_joined s =
     (\<forall>t rs k. map_of (sockets s) t = Some rs \<longrightarrow>
        (k \<in> set rs \<longleftrightarrow>
         (\<exists>r. map_of (chatRooms s) k = Some r \<and> t \<in> socketId ` set (users r))))"

definition inv_flag :: "server \<Rightarrow> bool" where
  "inv_flag s =
     (\<forall>t cu r. map_of (connectedUsers s) t = Some cu \<longrightarrow>
        map_of (chatRooms s) (cu_room cu) = Some r \<longrightarrow> owner r = t \<longrightarrow> cu_isOwner cu)"

text \<open>
  What the repository's documentation promises of the rooms: no room is without
  members, and the owner of a room is its first member. The one kind of event that does
  not keep this is a \<open>join\<close> by which the owner of a room goes over to another room.
\<close>

definition inv_owner :: "server \<Rightarrow> bool" where
  "inv_owner s =
     (\<forall>k r. map_of (chatRooms s) k = Some r \<longrightarrow>
        users r \<noteq> [] \<and> owner r = socketId (hd (users r)))"

fun owner_moves :: "server \<Rightarrow> event \<Rightarrow> bool" where
  "owner_moves s (Join a d) =
     (case map_of (connectedUsers s) a of
        None \<Rightarrow> False
      | Some cu \<Rightarrow>
          (case map_of (chatRooms s) (cu_room cu) of
             None \<Rightarrow> False
           | Some r \<Rightarrow>
               cu_room cu \<noteq> rd_room d \<and> owner r = a \<and>
               map_of (chatRooms s) (rd_room d) \<noteq> None))"
| "owner_moves s ev = False"

subsection \<open>Notions used in the statements\<close>

text \<open>The members of a room that remain when the socket \<open>a\<close> has gone.\<close>

definition remaining :: "socket_id \<Rightarrow> chat_room \<Rightarrow> member list" where
  "remaining a room = filter (\<lambda>u. socketId u \<noteq> a) (users room)"

text \<open>
  The succession rule, as an outcome \<open>r\<close> (state and payloads sent) of an event by which
  the owner \<open>a\<close> went from the room \<open>room\<close> of key \<open>k\<close> at time \<open>t\<close>, the state before
  the event being \<open>s\<close>: the first of the remaining members is the owner, with the members
  as they remain; if it is connected it is sent \<open>ownership transferred\<close>; every
  remaining member that is connected is sent \<open>owner changed\<close> with the new owner's
  name.
\<close>

definition succession ::
  "server \<Rightarrow> room_id \<Rightarrow> chat_room \<Rightarrow> socket_id \<Rightarrow> nat \<Rightarrow> server \<times> emission list \<Rightarrow> bool" where
  "succession s k room a t r =
     (map_of (chatRooms (fst r)) k =
        Some (room\<lparr>owner := socketId (hd (remaining a room)),
                   ownerName := nickname (hd (remaining a room)),
                   users := remaining a room\<rparr>) \<and>
      (connected s (socketId (hd (remaining a room))) \<longrightarrow>
         (socketId (hd (remaining a room)), OwnershipTransferred k (rname room) t) \<in> set (snd r)) \<and>
      list_all
        (\<lambda>u. connected s (socketId u) \<longrightarrow>
               (socketId u, OwnerChanged (nickname (hd (remaining a room))) t) \<in> set (snd r))
        (remaining a room))"

subsection \<open>Facts about the helpers\<close>

lemma socket_join_fields [simp]:
  "chatRooms (socket_join s a r) = chatRooms s"
  "connectedUsers (socket_join s a r) = connectedUsers s"
  "fst ` set (sockets (socket_join s a r)) = fst ` set (sockets s)"
  by (simp_all add: socket_join_def AList.dom_map_entry)

lemma socket_leave_fields [simp]:
  "chatRooms (socket_leave s a r) = chatRooms s"
  "connectedUsers (socket_leave s a r) = connectedUsers s"
  "fst ` set (sockets (socket_leave s a r)) = fst ` set (sockets s)"
  by (simp_all add: socket_leave_def AList.dom_map_entry)

lemma removeUserFromRoom_fields [simp]:
  "sockets (fst (removeUserFromRoom s k a)) = sockets s"
  "connectedUsers (fst (removeUserFromRoom s k a)) = connectedUsers s"
  by (simp_all add: removeUserFromRoom_def split: option.splits)

lemma removeUserFromRoom_other:
  "k' \<noteq> k \<Longrightarrow> map_of (chatRooms (fst (removeUserFromRoom s k a))) k' = map_of (chatRooms s) k'"
  by (simp add: removeUserFromRoom_def AList.update_conv' split: option.splits)

lemma transferOwnership_fields [simp]:
  "sockets (fst (transferOwnership s k)) = sockets s"
  "connectedUsers (fst (transferOwnership s k)) = connectedUsers s"
  by (simp_all add: transferOwnership_def split: option.splits list.splits)

lemma transferOwnership_eqD:
  "transferOwnership s k = (s1, x) \<Longrightarrow> sockets s1 = sockets s \<and> connectedUsers s1 = connectedUsers s"
  using transferOwnership_fields [of s k] by simp

lemma ownerGone_sockets [simp]: "sockets (fst (ownerGone s e k r)) = sockets s"
  by (auto simp: ownerGone_def Let_def split: prod.splits option.splits dest: transferOwnership_eqD)

lemma in_io_emit: "(t, p) \<in> set (io_emit s q) \<longleftrightarrow> p = q \<and> t \<in> fst ` set (sockets s)"
  by (auto simp: io_emit_def)

lemma in_io_to:
  "(t, p) \<in> set (io_to s r q) \<longleftrightarrow> p = q \<and> (\<exists>rs. (t, rs) \<in> set (sockets s) \<and> r \<in> set rs)"
  by (force simp: io_to_def)

lemma findIndex_None: "findIndex P xs = None \<longleftrightarrow> (\<forall>x \<in> set xs. \<not> P x)"
  by (induction xs) auto

lemma create_room_sockets: "fst ` set (sockets (fst (create_room s e a d))) = fst ` set (sockets s)"
  by (simp add: create_room_def Let_def)

lemma join_sockets: "fst ` set (sockets (fst (join s e a d))) = fst ` set (sockets s)"
  by (simp add: join_def Let_def split: option.splits)

lemma leave_sockets: "fst ` set (sockets (fst (leave s e a d))) = fst ` set (sockets s)"
  by (simp add: leave_def Let_def split: option.splits)

lemma create_room_out:
  "roomName d \<noteq> [] \<Longrightarrow> trim (roomName d) \<noteq> [] \<Longrightarrow>
   \<not> list_ex (\<lambda>room. toLowerCase e (rname room) = toLowerCase e (trim (roomName d)))
       (map snd (chatRooms s)) \<Longrightarrow>
   \<exists>pre. snd (create_room s e a d) = pre @ broadcastRoomsList (fst (create_room s e a d)) e"
  by (simp add: create_room_def Let_def)

lemma join_out:
  "map_of (chatRooms s) (rd_room d) = Some room \<Longrightarrow>
   \<exists>pre. snd (join s e a d) = pre @ broadcastRoomsList (fst (join s e a d)) e"
  by (simp add: join_def Let_def)

lemma leave_out:
  "map_of (chatRooms s) (rd_room d) = Some room \<Longrightarrow>
   \<exists>pre. snd (leave s e a d) = pre @ broadcastRoomsList (fst (leave s e a d)) e"
  by (simp add: leave_def Let_def)

lemma broadcast_reaches:
  "out = pre @ broadcastRoomsList s' e \<Longrightarrow> fst ` set (sockets s') = fst ` set (sockets s) \<Longrightarrow>
   t \<in> fst ` set (sockets s) \<Longrightarrow>
   (t, RoomsList (roomsList s') (length (roomsList s')) (now e)) \<in> set out"
  by (simp add: broadcastRoomsList_def in_io_emit)

subsection \<open>Facts about strings and the clock\<close>

lemma trimStart_Nil [simp]: "trimStart ws [] = []"
proof -
  have none: "find (\<lambda>w. w \<noteq> [] \<and> take (length w) [] = w) ws = None"
    by (auto simp: find_None_iff)
  show ?thesis
    by (subst trimStart.simps, subst none) simp
qed

lemma trim_Nil [simp]: "trim [] = []"
  by (simp add: trim_def)

lemma asciiLower_Nil_iff [simp]: "asciiLower x = [] \<longleftrightarrow> x = []"
  by (simp add: asciiLower_def)

lemma now_at: "now (at t r) = t"
  by (simp add: at_def)

lemma toLowerCase_at: "toLowerCase (at t r) = asciiLower"
  by (simp add: at_def)

subsection \<open>Removing a member\<close>

lemma splice1_filter:
  "distinct (map f xs) \<Longrightarrow> findIndex (\<lambda>u. f u = a) xs = Some i \<Longrightarrow>
   splice1 i xs = filter (\<lambda>u. f u \<noteq> a) xs"
proof (induction xs arbitrary: i)
  case Nil
  then show ?case by simp
next
  case (Cons x xs)
  show ?case
  proof (cases "f x = a")
    case True
    from Cons.prems(1) have "f x \<notin> f ` set xs"
      by simp
    with True have "\<forall>u \<in> set xs. f u \<noteq> a"
      by blast
    moreover from True Cons.prems(2) have "i = 0"
      by simp
    ultimately have "i = 0" and "\<forall>u \<in> set xs. f u \<noteq> a"
      by simp_all
    with True show ?thesis
      by (simp add: splice1_def)
  next
    case False
    with Cons.prems obtain j where j: "findIndex (\<lambda>u. f u = a) xs = Some j" "i = Suc j"
      by auto
    with Cons.IH [of j] Cons.prems(1) False show ?thesis
      by (simp add: splice1_def)
  qed
qed

lemma filter_absent: "findIndex (\<lambda>u. f u = a) xs = None \<Longrightarrow> filter (\<lambda>u. f u \<noteq> a) xs = xs"
  by (induction xs) (auto split: if_splits)

lemma length_filter_distinct:
  "distinct (map f xs) \<Longrightarrow> length xs \<le> Suc (length (filter (\<lambda>u. f u \<noteq> a) xs))"
proof (induction xs)
  case Nil
  then show ?case by simp
next
  case (Cons x xs)
  show ?case
  proof (cases "f x = a")
    case True
    from Cons.prems have "f x \<notin> f ` set xs"
      by simp
    with True have "\<forall>u \<in> set xs. f u \<noteq> a"
      by blast
    then have "filter (\<lambda>u. f u \<noteq> a) xs = xs"
      by (simp add: filter_id_conv)
    with True show ?thesis by simp
  next
    case False
    with Cons show ?thesis by simp
  qed
qed

lemma removeUserFromRoom_room:
  assumes "map_of (chatRooms s) k = Some room" and "distinct (map socketId (users room))"
  shows "map_of (chatRooms (fst (removeUserFromRoom s k a))) k =
           Some (room\<lparr>users := remaining a room\<rparr>)"
proof (cases "findIndex (\<lambda>u. socketId u = a) (users room)")
  case None
  then have "remaining a room = users room"
    by (simp add: remaining_def filter_absent)
  with None assms(1) show ?thesis
    by (simp add: removeUserFromRoom_def)
next
  case (Some i)
  with assms(2) have "splice1 i (users room) = remaining a room"
    by (simp add: remaining_def splice1_filter)
  with Some assms(1) show ?thesis
    by (simp add: removeUserFromRoom_def AList.update_conv')
qed

subsection \<open>When the owner has gone\<close>

lemma ownerGone_chatRooms:
  "map_of (chatRooms s) k = Some r \<Longrightarrow>
   map_of (chatRooms (fst (ownerGone s e k r))) k =
     (case users r of [] \<Rightarrow> None
      | new # _ \<Rightarrow> Some (r\<lparr>owner := socketId new, ownerName := nickname new\<rparr>))"
  by (simp add: ownerGone_def transferOwnership_def Let_def AList.update_conv' AList.delete_conv'
        split: list.splits option.splits)

lemma ownerGone_out:
  assumes "map_of (chatRooms s) k = Some r" and "users r = new # rest"
    and "map_of (sockets s) (socketId new) = Some rs"
  shows "snd (snd (snd (ownerGone s e k r))) =
           (socketId new, OwnershipTransferred k (rname r) (now e))
           # io_to s k (OwnerChanged (nickname new) (now e))"
  using assms
  by (simp add: ownerGone_def transferOwnership_def Let_def socket_emit_def io_to_def
        split: option.splits)



lemma ownerGone_owner_changed:
  assumes "map_of (chatRooms s) k = Some r" and "users r = new # rest"
  shows "set (io_to s k (OwnerChanged (nickname new) (now e)))
           \<subseteq> set (snd (snd (snd (ownerGone s e k r))))"
  using assms
  by (auto simp: ownerGone_def transferOwnership_def Let_def socket_emit_def io_to_def
        split: option.splits)

subsection \<open>Succession\<close>

lemma remaining_hd:
  assumes "2 \<le> length (users room)" and "distinct (map socketId (users room))"
  shows "remaining a room = hd (remaining a room) # tl (remaining a room)"
proof -
  from assms(2) have "length (users room) \<le> Suc (length (remaining a room))"
    unfolding remaining_def by (rule length_filter_distinct)
  with assms(1) have "remaining a room \<noteq> []"
    by auto
  then show ?thesis by simp
qed

lemma remaining_not_gone: "u \<in> set (remaining a room) \<Longrightarrow> socketId u \<noteq> a"
  by (simp add: remaining_def)

lemma socket_leave_other:
  "t \<noteq> a \<Longrightarrow> map_of (sockets (socket_leave s a k)) t = map_of (sockets s) t"
  by (simp add: socket_leave_def AList.map_of_map_entry)

lemma succession_after_removal:
  assumes room: "map_of (chatRooms s2) k = Some (room\<lparr>users := remaining a room\<rparr>)"
    and two: "2 \<le> length (users room)"
    and dist: "distinct (map socketId (users room))"
    and joined: "\<forall>u \<in> set (remaining a room).
                   \<forall>rs. map_of (sockets s2) (socketId u) = Some rs \<longrightarrow> k \<in> set rs"
    and g: "g = ownerGone s2 e k (room\<lparr>users := remaining a room\<rparr>)"
  shows "map_of (chatRooms (fst g)) k =
           Some (room\<lparr>owner := socketId (hd (remaining a room)),
                      ownerName := nickname (hd (remaining a room)),
                      users := remaining a room\<rparr>)"
    and "map_of (sockets s2) (socketId (hd (remaining a room))) \<noteq> None \<longrightarrow>
         (socketId (hd (remaining a room)), OwnershipTransferred k (rname room) (now e))
           \<in> set (snd (snd (snd g)))"
    and "\<forall>u \<in> set (remaining a room).
           map_of (sockets s2) (socketId u) \<noteq> None \<longrightarrow>
           (socketId u, OwnerChanged (nickname (hd (remaining a room))) (now e))
             \<in> set (snd (snd (snd g)))"
proof -
  let ?new = "hd (remaining a room)"
  let ?r = "room\<lparr>users := remaining a room\<rparr>"
  have rem: "remaining a room = ?new # tl (remaining a room)"
    using two dist by (rule remaining_hd)
  then have us: "users ?r = ?new # tl (remaining a room)"
    by simp
  from ownerGone_chatRooms [OF room, of e] us
  show "map_of (chatRooms (fst g)) k =
           Some (room\<lparr>owner := socketId ?new, ownerName := nickname ?new,
                      users := remaining a room\<rparr>)"
    unfolding g by simp
  show "map_of (sockets s2) (socketId ?new) \<noteq> None \<longrightarrow>
        (socketId ?new, OwnershipTransferred k (rname room) (now e)) \<in> set (snd (snd (snd g)))"
  proof
    assume "map_of (sockets s2) (socketId ?new) \<noteq> None"
    then obtain rs where rs: "map_of (sockets s2) (socketId ?new) = Some rs"
      by blast
    show "(socketId ?new, OwnershipTransferred k (rname room) (now e)) \<in> set (snd (snd (snd g)))"
      unfolding g using ownerGone_out [OF room us rs, of e] by simp
  qed
  show "\<forall>u \<in> set (remaining a room).
           map_of (sockets s2) (socketId u) \<noteq> None \<longrightarrow>
           (socketId u, OwnerChanged (nickname ?new) (now e)) \<in> set (snd (snd (snd g)))"
  proof (intro ballI impI)
    fix u
    assume u: "u \<in> set (remaining a room)" and "map_of (sockets s2) (socketId u) \<noteq> None"
    then obtain rs where rs: "map_of (sockets s2) (socketId u) = Some rs"
      by blast
    with joined u have "k \<in> set rs"
      by blast
    with rs have "(socketId u, OwnerChanged (nickname ?new) (now e))
                    \<in> set (io_to s2 k (OwnerChanged (nickname ?new) (now e)))"
      by (auto simp: in_io_to dest: map_of_SomeD)
    with ownerGone_owner_changed [OF room us, of e]
    show "(socketId u, OwnerChanged (nickname ?new) (now e)) \<in> set (snd (snd (snd g)))"
      unfolding g by blast
  qed
qed

subsection \<open>Disconnecting\<close>






section \<open>Reachable states\<close>

subsection \<open>What the handlers do to the three maps\<close>

lemma removeUserFromRoom_rooms:
  assumes "inv_members s"
  shows "map_of (chatRooms (fst (removeUserFromRoom s k a))) k' =
           (if k' = k then map_option (\<lambda>r. r\<lparr>users := remaining a r\<rparr>) (map_of (chatRooms s) k)
            else map_of (chatRooms s) k')"
proof (cases "k' = k")
  case False
  then show ?thesis by (simp add: removeUserFromRoom_other)
next
  case True
  show ?thesis
  proof (cases "map_of (chatRooms s) k")
    case None
    with True show ?thesis by (simp add: removeUserFromRoom_def)
  next
    case (Some r)
    with assms have "distinct (map socketId (users r))"
      by (auto simp: inv_members_def)
    with Some True show ?thesis
      by (simp add: removeUserFromRoom_room)
  qed
qed

lemma ownerGone_rooms:
  assumes "map_of (chatRooms s) k = Some r"
  shows "map_of (chatRooms (fst (ownerGone s e k r))) k' =
           (if k' = k
            then (case users r of
                    [] \<Rightarrow> None
                  | new # _ \<Rightarrow> Some (r\<lparr>owner := socketId new, ownerName := nickname new\<rparr>))
            else map_of (chatRooms s) k')"
  using assms
  by (simp add: ownerGone_def transferOwnership_def Let_def AList.update_conv'
        AList.delete_conv' split: list.splits option.splits)

lemma ownerGone_sessions:
  assumes "map_of (chatRooms s) k = Some r"
  shows "map_of (connectedUsers (fst (ownerGone s e k r))) t =
           (case users r of
              [] \<Rightarrow> map_of (connectedUsers s) t
            | new # _ \<Rightarrow>
                if t = socketId new \<and> map_of (sockets s) t \<noteq> None
                then map_option (\<lambda>cu. cu\<lparr>cu_isOwner := True\<rparr>) (map_of (connectedUsers s) t)
                else map_of (connectedUsers s) t)"
  using assms
  by (auto simp: ownerGone_def transferOwnership_def Let_def AList.update_conv'
        split: list.splits option.splits)

lemma socket_join_map:
  "map_of (sockets (socket_join s a k)) t =
     (if t = a
      then map_option (\<lambda>rs. if k \<in> set rs then rs else rs @ [k]) (map_of (sockets s) a)
      else map_of (sockets s) t)"
  by (simp add: socket_join_def AList.map_of_map_entry split: option.splits)

lemma socket_leave_map:
  "map_of (sockets (socket_leave s a k)) t =
     (if t = a then map_option (removeAll k) (map_of (sockets s) a) else map_of (sockets s) t)"
  by (simp add: socket_leave_def AList.map_of_map_entry split: option.splits)

text \<open>\<open>create room\<close>\<close>

lemma create_room_state:
  "fst (create_room s e a d) =
     (if roomName d = [] \<or> trim (roomName d) = [] \<or>
         list_ex (\<lambda>room. toLowerCase e (rname room) = toLowerCase e (trim (roomName d)))
           (map snd (chatRooms s))
      then s
      else socket_join
             (s\<lparr>chatRooms :=
                  AList.update (newRoomId e)
                    \<lparr>rid = newRoomId e, rname = trim (roomName d), owner = a,
                     ownerName = cd_user d,
                     users = [\<lparr>socketId = a, nickname = cd_user d, joinedAt = now e,
                               isOwner = True\<rparr>],
                     createdAt = now e, isPrivate = False\<rparr>
                    (chatRooms s),
                connectedUsers :=
                  AList.update a \<lparr>username = cd_user d, cu_room = newRoomId e, cu_isOwner = True\<rparr>
                    (connectedUsers s)\<rparr>)
             a (newRoomId e))"
  by (simp add: create_room_def Let_def)

text \<open>\<open>join\<close>\<close>

lemma join_rooms:
  assumes "map_of (chatRooms s) (rd_room d) = Some r" and "inv_members s"
  shows "map_of (chatRooms (fst (join s e a d))) k' =
           (if k' = rd_room d
            then Some (if a \<in> socketId ` set (users r) then r
                       else r\<lparr>users := users r @
                                [\<lparr>socketId = a, nickname = rd_user d, joinedAt = now e,
                                  isOwner = (owner r = a)\<rparr>]\<rparr>)
            else (case map_of (connectedUsers s) a of
                    None \<Rightarrow> map_of (chatRooms s) k'
                  | Some cu \<Rightarrow>
                      if k' = cu_room cu
                      then map_option (\<lambda>r. r\<lparr>users := remaining a r\<rparr>) (map_of (chatRooms s) k')
                      else map_of (chatRooms s) k'))"
proof -
  have inv1: "\<And>k0. inv_members (socket_leave s a k0)"
    using assms(2) by (simp add: inv_members_def)
  have idx: "findIndex (\<lambda>u. socketId u = a) (users r) = None \<longleftrightarrow> a \<notin> socketId ` set (users r)"
    by (auto simp: findIndex_None)
  show ?thesis
  proof (cases "a \<in> socketId ` set (users r)")
    case True
    with idx obtain i where "findIndex (\<lambda>u. socketId u = a) (users r) = Some i"
      by fastforce
    with assms(1) True show ?thesis
      by (auto simp: join_def Let_def removeUserFromRoom_rooms [OF inv1] split: option.splits)
  next
    case False
    with idx have "findIndex (\<lambda>u. socketId u = a) (users r) = None"
      by simp
    with assms(1) False show ?thesis
      by (auto simp: join_def Let_def removeUserFromRoom_rooms [OF inv1] AList.update_conv'
            split: option.splits)
  qed
qed

lemma join_sockets_map:
  assumes "map_of (chatRooms s) (rd_room d) = Some r"
  shows "map_of (sockets (fst (join s e a d))) t =
           (if t = a
            then map_option (\<lambda>rs. if rd_room d \<in> set rs then rs else rs @ [rd_room d])
                   (case map_of (connectedUsers s) a of
                      None \<Rightarrow> map_of (sockets s) a
                    | Some cu \<Rightarrow>
                        if cu_room cu \<noteq> rd_room d
                        then map_option (removeAll (cu_room cu)) (map_of (sockets s) a)
                        else map_of (sockets s) a)
            else map_of (sockets s) t)"
  using assms
  by (auto simp: join_def Let_def socket_join_map socket_leave_map
        split: option.splits)

lemma join_sessions:
  assumes "map_of (chatRooms s) (rd_room d) = Some r"
  shows "map_of (connectedUsers (fst (join s e a d))) t =
           (if t = a
            then Some \<lparr>username = rd_user d, cu_room = rd_room d, cu_isOwner = (owner r = a)\<rparr>
            else map_of (connectedUsers s) t)"
  using assms
  by (auto simp: join_def Let_def AList.update_conv' split: option.splits)

lemma join_no_room: "map_of (chatRooms s) (rd_room d) = None \<Longrightarrow> fst (join s e a d) = s"
  by (simp add: join_def)

text \<open>\<open>leave\<close>\<close>

lemma leave_no_room: "map_of (chatRooms s) (rd_room d) = None \<Longrightarrow> fst (leave s e a d) = s"
  by (simp add: leave_def)

lemma leave_rooms:
  assumes "map_of (chatRooms s) (rd_room d) = Some r" and "inv_members s"
  shows "map_of (chatRooms (fst (leave s e a d))) k' =
           (if k' = rd_room d
            then (if owner r = a
                  then (case remaining a r of
                          [] \<Rightarrow> None
                        | new # _ \<Rightarrow>
                            Some (r\<lparr>owner := socketId new, ownerName := nickname new,
                                    users := remaining a r\<rparr>))
                  else Some (r\<lparr>users := remaining a r\<rparr>))
            else map_of (chatRooms s) k')"
proof -
  let ?k = "rd_room d"
  let ?s1 = "socket_leave s a ?k"
  let ?s2 = "fst (removeUserFromRoom ?s1 ?k a)"
  let ?r = "r\<lparr>users := remaining a r\<rparr>"
  have inv1: "inv_members ?s1"
    using assms(2) by (simp add: inv_members_def)
  have r2: "map_of (chatRooms ?s2) ?k = Some ?r"
    using assms(1) by (simp add: removeUserFromRoom_rooms [OF inv1])
  have other: "\<And>k'. k' \<noteq> ?k \<Longrightarrow> map_of (chatRooms ?s2) k' = map_of (chatRooms s) k'"
    by (simp add: removeUserFromRoom_rooms [OF inv1])
  have obj: "roomObject ?s2 ?k r = ?r"
    using r2 by (simp add: roomObject_def)
  have eq: "chatRooms (fst (leave s e a d)) =
          chatRooms (fst (if owner r = a then ownerGone ?s2 e ?k ?r else (?s2, None, False, [])))"
    using assms(1) obj by (simp add: leave_def Let_def)
  show ?thesis
  proof (cases "owner r = a")
    case False
    with eq r2 other show ?thesis by simp
  next
    case True
    with eq have "map_of (chatRooms (fst (leave s e a d))) k' =
                    map_of (chatRooms (fst (ownerGone ?s2 e ?k ?r))) k'"
      by simp
    also have "\<dots> = (if k' = ?k
                      then (case remaining a r of
                              [] \<Rightarrow> None
                            | new # _ \<Rightarrow>
                                Some (r\<lparr>owner := socketId new, ownerName := nickname new,
                                        users := remaining a r\<rparr>))
                      else map_of (chatRooms s) k')"
      unfolding ownerGone_rooms [OF r2] using other by (simp split: list.splits)
    finally show ?thesis
      using True by simp
  qed
qed

lemma leave_sockets_map:
  assumes "map_of (chatRooms s) (rd_room d) = Some r"
  shows "map_of (sockets (fst (leave s e a d))) t =
           (if t = a then map_option (removeAll (rd_room d)) (map_of (sockets s) a)
            else map_of (sockets s) t)"
  using assms by (simp add: leave_def Let_def socket_leave_map)

lemma leave_sessions:
  assumes "map_of (chatRooms s) (rd_room d) = Some r" and "inv_members s"
  shows "map_of (connectedUsers (fst (leave s e a d))) t =
           (if t = a then None
            else if owner r = a \<and> remaining a r \<noteq> [] \<and> t = socketId (hd (remaining a r)) \<and>
                    map_of (sockets s) t \<noteq> None
            then map_option (\<lambda>cu. cu\<lparr>cu_isOwner := True\<rparr>) (map_of (connectedUsers s) t)
            else map_of (connectedUsers s) t)"
proof -
  let ?k = "rd_room d"
  let ?s1 = "socket_leave s a ?k"
  let ?s2 = "fst (removeUserFromRoom ?s1 ?k a)"
  let ?r = "r\<lparr>users := remaining a r\<rparr>"
  let ?g = "if owner r = a then ownerGone ?s2 e ?k ?r else (?s2, None, False, [])"
  have inv1: "inv_members ?s1"
    using assms(2) by (simp add: inv_members_def)
  have r2: "map_of (chatRooms ?s2) ?k = Some ?r"
    using assms(1) by (simp add: removeUserFromRoom_rooms [OF inv1])
  have obj: "roomObject ?s2 ?k r = ?r"
    using r2 by (simp add: roomObject_def)
  have eq: "connectedUsers (fst (leave s e a d)) = AList.delete a (connectedUsers (fst ?g))"
    using assms(1) obj by (simp add: leave_def Let_def)
  show ?thesis
  proof (cases "t = a")
    case True
    then show ?thesis by (simp add: eq AList.delete_conv')
  next
    case False
    then have "map_of (connectedUsers (fst (leave s e a d))) t = map_of (connectedUsers (fst ?g)) t"
      by (simp add: eq AList.delete_conv')
    also have "\<dots> = (if owner r = a \<and> remaining a r \<noteq> [] \<and> t = socketId (hd (remaining a r)) \<and>
                         map_of (sockets s) t \<noteq> None
                      then map_option (\<lambda>cu. cu\<lparr>cu_isOwner := True\<rparr>) (map_of (connectedUsers s) t)
                      else map_of (connectedUsers s) t)"
      using False ownerGone_sessions [OF r2, of e t]
      by (auto simp: socket_leave_map split: list.splits)
    finally show ?thesis
      using False by simp
  qed
qed

text \<open>\<open>disconnect\<close>\<close>

lemma disconnect_sockets_map:
  "map_of (sockets (fst (disconnect s e a))) t = (if t = a then None else map_of (sockets s) t)"
  by (simp add: disconnect_def Let_def AList.delete_conv' split: option.splits)

lemma disconnect_no_session:
  "map_of (connectedUsers s) a = None \<Longrightarrow>
   chatRooms (fst (disconnect s e a)) = chatRooms s \<and>
   connectedUsers (fst (disconnect s e a)) = connectedUsers s"
  by (simp add: disconnect_def)

lemma disconnect_no_room:
  "map_of (connectedUsers s) a = Some cu \<Longrightarrow> map_of (chatRooms s) (cu_room cu) = None \<Longrightarrow>
   chatRooms (fst (disconnect s e a)) = chatRooms s \<and>
   connectedUsers (fst (disconnect s e a)) = AList.delete a (connectedUsers s)"
  by (simp add: disconnect_def)

lemma disconnect_rooms:
  assumes "map_of (connectedUsers s) a = Some cu"
    and "map_of (chatRooms s) (cu_room cu) = Some r"
    and "inv_members s"
  shows "map_of (chatRooms (fst (disconnect s e a))) k' =
           (if k' = cu_room cu
            then (if cu_isOwner cu
                  then (case remaining a r of
                          [] \<Rightarrow> None
                        | new # _ \<Rightarrow>
                            Some (r\<lparr>owner := socketId new, ownerName := nickname new,
                                    users := remaining a r\<rparr>))
                  else Some (r\<lparr>users := remaining a r\<rparr>))
            else map_of (chatRooms s) k')"
proof -
  let ?k = "cu_room cu"
  let ?s0 = "s\<lparr>sockets := AList.delete a (sockets s)\<rparr>"
  let ?s1 = "fst (removeUserFromRoom ?s0 ?k a)"
  let ?r = "r\<lparr>users := remaining a r\<rparr>"
  have inv0: "inv_members ?s0"
    using assms(3) by (simp add: inv_members_def)
  have r0: "map_of (chatRooms ?s0) ?k = Some r"
    using assms(2) by simp
  have r1: "map_of (chatRooms ?s1) ?k = Some ?r"
    using r0 by (simp add: removeUserFromRoom_rooms [OF inv0])
  have other: "\<And>k'. k' \<noteq> ?k \<Longrightarrow> map_of (chatRooms ?s1) k' = map_of (chatRooms s) k'"
    by (simp add: removeUserFromRoom_rooms [OF inv0])
  have obj: "roomObject ?s1 ?k r = ?r"
    using r1 by (simp add: roomObject_def)
  have eq: "chatRooms (fst (disconnect s e a)) =
          chatRooms (fst (if cu_isOwner cu then ownerGone ?s1 e ?k ?r else (?s1, None, False, [])))"
    using assms(1) r0 obj by (simp add: disconnect_def Let_def)
  show ?thesis
  proof (cases "cu_isOwner cu")
    case False
    with eq r1 other show ?thesis by simp
  next
    case True
    with eq have "map_of (chatRooms (fst (disconnect s e a))) k' =
                    map_of (chatRooms (fst (ownerGone ?s1 e ?k ?r))) k'"
      by simp
    also have "\<dots> = (if k' = ?k
                      then (case remaining a r of
                              [] \<Rightarrow> None
                            | new # _ \<Rightarrow>
                                Some (r\<lparr>owner := socketId new, ownerName := nickname new,
                                        users := remaining a r\<rparr>))
                      else map_of (chatRooms s) k')"
      unfolding ownerGone_rooms [OF r1] using other by (simp split: list.splits)
    finally show ?thesis
      using True by simp
  qed
qed

lemma disconnect_sessions:
  assumes "map_of (connectedUsers s) a = Some cu"
    and "map_of (chatRooms s) (cu_room cu) = Some r"
    and "inv_members s"
  shows "map_of (connectedUsers (fst (disconnect s e a))) t =
           (if t = a then None
            else if cu_isOwner cu \<and> remaining a r \<noteq> [] \<and> t = socketId (hd (remaining a r)) \<and>
                    map_of (sockets s) t \<noteq> None
            then map_option (\<lambda>cu. cu\<lparr>cu_isOwner := True\<rparr>) (map_of (connectedUsers s) t)
            else map_of (connectedUsers s) t)"
proof -
  let ?k = "cu_room cu"
  let ?s0 = "s\<lparr>sockets := AList.delete a (sockets s)\<rparr>"
  let ?s1 = "fst (removeUserFromRoom ?s0 ?k a)"
  let ?r = "r\<lparr>users := remaining a r\<rparr>"
  let ?g = "if cu_isOwner cu then ownerGone ?s1 e ?k ?r else (?s1, None, False, [])"
  have inv0: "inv_members ?s0"
    using assms(3) by (simp add: inv_members_def)
  have r0: "map_of (chatRooms ?s0) ?k = Some r"
    using assms(2) by simp
  have r1: "map_of (chatRooms ?s1) ?k = Some ?r"
    using r0 by (simp add: removeUserFromRoom_rooms [OF inv0])
  have obj: "roomObject ?s1 ?k r = ?r"
    using r1 by (simp add: roomObject_def)
  have eq: "connectedUsers (fst (disconnect s e a)) = AList.delete a (connectedUsers (fst ?g))"
    using assms(1) r0 obj by (simp add: disconnect_def Let_def)
  show ?thesis
  proof (cases "t = a")
    case True
    then show ?thesis by (simp add: eq AList.delete_conv')
  next
    case False
    then have "map_of (connectedUsers (fst (disconnect s e a))) t =
                 map_of (connectedUsers (fst ?g)) t"
      by (simp add: eq AList.delete_conv')
    also have "\<dots> = (if cu_isOwner cu \<and> remaining a r \<noteq> [] \<and> t = socketId (hd (remaining a r)) \<and>
                         map_of (sockets s) t \<noteq> None
                      then map_option (\<lambda>cu. cu\<lparr>cu_isOwner := True\<rparr>) (map_of (connectedUsers s) t)
                      else map_of (connectedUsers s) t)"
      using False ownerGone_sessions [OF r1, of e t]
      by (auto simp: AList.delete_conv' split: list.splits)
    finally show ?thesis
      using False by simp
  qed
qed

subsection \<open>The simple invariants\<close>

lemma inv_sockets_step:
  assumes "inv_sockets s"
  shows "inv_sockets (fst (step s e ev))"
proof -
  have j: "\<And>s a k. inv_sockets s \<Longrightarrow> inv_sockets (socket_join s a k)"
    by (simp add: inv_sockets_def socket_join_def AList.distinct_map_entry)
  have l: "\<And>s a k. inv_sockets s \<Longrightarrow> inv_sockets (socket_leave s a k)"
    by (simp add: inv_sockets_def socket_leave_def AList.distinct_map_entry)
  show ?thesis
  proof (cases ev)
    case (Connect a)
    with assms show ?thesis
      by (simp add: inv_sockets_def connection_def AList.distinct_update)
  next
    case (CreateRoom a d)
    have "inv_sockets (s\<lparr>chatRooms := x, connectedUsers := y\<rparr>)" for x y
      using assms by (simp add: inv_sockets_def)
    with assms CreateRoom show ?thesis
      by (simp add: create_room_state j)
  next
    case (Join a d)
    have "sockets (fst (join s e a d)) = sockets s \<or>
          (\<exists>s'. inv_sockets s' \<and> sockets (fst (join s e a d)) = sockets (socket_join s' a (rd_room d)))"
    proof (cases "map_of (chatRooms s) (rd_room d)")
      case None
      then show ?thesis by (simp add: join_def)
    next
      case (Some r)
      let ?s1 = "case map_of (connectedUsers s) a of
                   None \<Rightarrow> s
                 | Some cu \<Rightarrow> if cu_room cu \<noteq> rd_room d then socket_leave s a (cu_room cu) else s"
      have "inv_sockets ?s1"
        using assms l by (simp split: option.splits)
      moreover have "sockets (fst (join s e a d)) = sockets (socket_join ?s1 a (rd_room d))"
        using Some by (simp add: join_def Let_def socket_join_def split: option.splits)
      ultimately show ?thesis by blast
    qed
    with assms j Join show ?thesis
      by (auto simp: inv_sockets_def)
  next
    case (Chat a m)
    with assms show ?thesis
      by (simp add: chat_message_def split: option.splits)
  next
    case (Leave a d)
    have "sockets (fst (leave s e a d)) = sockets s \<or>
          sockets (fst (leave s e a d)) = sockets (socket_leave s a (rd_room d))"
      by (simp add: leave_def Let_def split: option.splits)
    with assms l [OF assms, of a "rd_room d"] Leave show ?thesis
      by (auto simp: inv_sockets_def)
  next
    case (GetRooms a)
    with assms show ?thesis
      by (simp add: get_rooms_def)
  next
    case (Disconnect a)
    have "sockets (fst (disconnect s e a)) = AList.delete a (sockets s)"
      by (simp add: disconnect_def Let_def split: option.splits)
    with assms Disconnect show ?thesis
      by (simp add: inv_sockets_def AList.distinct_delete)
  qed
qed

lemma connected_iff: "connected s a \<longleftrightarrow> map_of (sockets s) a \<noteq> None"
  by (simp add: connected_def map_of_eq_None_iff)

lemma same_keys_None:
  "fst ` set xs = fst ` set ys \<Longrightarrow> (map_of xs t = None) = (map_of ys t = None)"
  by (simp add: map_of_eq_None_iff)

lemma create_room_rooms:
  "map_of (chatRooms (fst (create_room s e a d))) k' = map_of (chatRooms s) k' \<or>
   k' = newRoomId e \<and>
   map_of (chatRooms (fst (create_room s e a d))) k' =
     Some \<lparr>rid = newRoomId e, rname = trim (roomName d), owner = a, ownerName = cd_user d,
           users = [\<lparr>socketId = a, nickname = cd_user d, joinedAt = now e, isOwner = True\<rparr>],
           createdAt = now e, isPrivate = False\<rparr> \<and>
   trim (roomName d) \<noteq> []"
  by (auto simp: create_room_state AList.update_conv' socket_join_def)

lemma distinct_remaining:
  "distinct (map socketId (users r)) \<Longrightarrow> distinct (map socketId (remaining a r))"
  by (simp add: remaining_def distinct_map_filter)

lemma inv_members_step:
  assumes "inv_members s"
  shows "inv_members (fst (step s e ev))"
  unfolding inv_members_def
proof (intro allI impI)
  fix k' r'
  assume post: "map_of (chatRooms (fst (step s e ev))) k' = Some r'"
  have pre: "\<And>k r. map_of (chatRooms s) k = Some r \<Longrightarrow> distinct (map socketId (users r))"
    using assms by (auto simp: inv_members_def)
  show "distinct (map socketId (users r'))"
  proof (cases ev)
    case (Connect a)
    with post pre show ?thesis
      by (simp add: connection_def)
  next
    case (CreateRoom a d)
    with post pre create_room_rooms [of s e a d k'] show ?thesis
      by auto
  next
    case (Join a d)
    show ?thesis
    proof (cases "map_of (chatRooms s) (rd_room d)")
      case None
      with Join post pre show ?thesis
        by (simp add: join_no_room)
    next
      case (Some r)
      note J = join_rooms [OF Some assms, of e a k']
      from pre [OF Some] have "distinct (map socketId (users r))" .
      with Join post J pre distinct_remaining show ?thesis
        by (auto split: if_splits option.splits)
    qed
  next
    case (Chat a m)
    with post pre show ?thesis
      by (simp add: chat_message_def split: option.splits if_splits)
  next
    case (Leave a d)
    show ?thesis
    proof (cases "map_of (chatRooms s) (rd_room d)")
      case None
      with Leave post pre show ?thesis
        by (simp add: leave_no_room)
    next
      case (Some r)
      note L = leave_rooms [OF Some assms, of e a k']
      from pre [OF Some] have "distinct (map socketId (users r))" .
      then have "distinct (map socketId (remaining a r))"
        by (rule distinct_remaining)
      with Leave post L pre show ?thesis
        by (auto split: if_splits list.splits)
    qed
  next
    case (GetRooms a)
    with post pre show ?thesis
      by (simp add: get_rooms_def)
  next
    case (Disconnect a)
    show ?thesis
    proof (cases "map_of (connectedUsers s) a")
      case None
      with Disconnect post pre show ?thesis
        by (simp add: disconnect_no_session)
    next
      case (Some cu)
      show ?thesis
      proof (cases "map_of (chatRooms s) (cu_room cu)")
        case None
        with Some Disconnect post pre show ?thesis
          by (simp add: disconnect_no_room)
      next
        case room: (Some r)
        note D = disconnect_rooms [OF Some room assms, of e k']
        from pre [OF room] have "distinct (map socketId (users r))" .
        then have "distinct (map socketId (remaining a r))"
          by (rule distinct_remaining)
        with Disconnect post D pre show ?thesis
          by (auto split: if_splits list.splits)
      qed
    qed
  qed
qed

lemma inv_names_step:
  assumes "inv_names s" and "inv_members s"
  shows "inv_names (fst (step s e ev))"
  unfolding inv_names_def
proof (intro allI impI)
  fix k' r'
  assume post: "map_of (chatRooms (fst (step s e ev))) k' = Some r'"
  have pre: "\<And>k r. map_of (chatRooms s) k = Some r \<Longrightarrow> rname r \<noteq> []"
    using assms(1) by (auto simp: inv_names_def)
  show "rname r' \<noteq> []"
  proof (cases ev)
    case (Connect a)
    with post pre show ?thesis
      by (simp add: connection_def)
  next
    case (CreateRoom a d)
    with post pre create_room_rooms [of s e a d k'] show ?thesis
      by auto
  next
    case (Join a d)
    show ?thesis
    proof (cases "map_of (chatRooms s) (rd_room d)")
      case None
      with Join post pre show ?thesis
        by (simp add: join_no_room)
    next
      case (Some r)
      note J = join_rooms [OF Some assms(2), of e a k']
      from pre [OF Some] have "rname r \<noteq> []" .
      with Join post J pre show ?thesis
        by (auto split: if_splits option.splits)
    qed
  next
    case (Chat a m)
    with post pre show ?thesis
      by (simp add: chat_message_def split: option.splits if_splits)
  next
    case (Leave a d)
    show ?thesis
    proof (cases "map_of (chatRooms s) (rd_room d)")
      case None
      with Leave post pre show ?thesis
        by (simp add: leave_no_room)
    next
      case (Some r)
      note L = leave_rooms [OF Some assms(2), of e a k']
      from pre [OF Some] have "rname r \<noteq> []" .
      with Leave post L pre show ?thesis
        by (auto split: if_splits list.splits)
    qed
  next
    case (GetRooms a)
    with post pre show ?thesis
      by (simp add: get_rooms_def)
  next
    case (Disconnect a)
    show ?thesis
    proof (cases "map_of (connectedUsers s) a")
      case None
      with Disconnect post pre show ?thesis
        by (simp add: disconnect_no_session)
    next
      case (Some cu)
      show ?thesis
      proof (cases "map_of (chatRooms s) (cu_room cu)")
        case None
        with Some Disconnect post pre show ?thesis
          by (simp add: disconnect_no_room)
      next
        case room: (Some r)
        note D = disconnect_rooms [OF Some room assms(2), of e k']
        from pre [OF room] have "rname r \<noteq> []" .
        with Disconnect post D pre show ?thesis
          by (auto split: if_splits list.splits)
      qed
    qed
  qed
qed

subsection \<open>Entries of \<open>connectedUsers\<close> belong to connected sockets\<close>

lemma create_room_cases:
  "fst (create_room s e a d) = s \<or>
   trim (roomName d) \<noteq> [] \<and>
   (\<forall>k'. map_of (chatRooms (fst (create_room s e a d))) k' =
      (if k' = newRoomId e
       then Some \<lparr>rid = newRoomId e, rname = trim (roomName d), owner = a,
                 ownerName = cd_user d,
                 users = [\<lparr>socketId = a, nickname = cd_user d, joinedAt = now e,
                           isOwner = True\<rparr>],
                 createdAt = now e, isPrivate = False\<rparr>
       else map_of (chatRooms s) k')) \<and>
   (\<forall>t. map_of (connectedUsers (fst (create_room s e a d))) t =
      (if t = a then Some \<lparr>username = cd_user d, cu_room = newRoomId e, cu_isOwner = True\<rparr>
       else map_of (connectedUsers s) t)) \<and>
   (\<forall>t. map_of (sockets (fst (create_room s e a d))) t =
      (if t = a
       then map_option (\<lambda>rs. if newRoomId e \<in> set rs then rs else rs @ [newRoomId e])
              (map_of (sockets s) a)
       else map_of (sockets s) t))"
  by (simp add: create_room_state AList.update_conv' socket_join_map)

lemma connection_maps:
  "chatRooms (connection s a) = chatRooms s"
  "connectedUsers (connection s a) = connectedUsers s"
  "map_of (sockets (connection s a)) t = (if t = a then Some [] else map_of (sockets s) t)"
  by (simp_all add: connection_def AList.update_conv')

lemma chat_message_state [simp]: "fst (chat_message s e a m) = s"
  by (simp add: chat_message_def split: option.splits)

lemma get_rooms_state [simp]: "fst (get_rooms s e a) = s"
  by (simp add: get_rooms_def)

lemma inv_sessions_step:
  assumes inv: "inv_sessions s" and mem: "inv_members s" and en: "enabled s e ev"
  shows "inv_sessions (fst (step s e ev))"
  unfolding inv_sessions_def
proof (intro allI impI)
  fix t cu'
  assume post: "map_of (connectedUsers (fst (step s e ev))) t = Some cu'"
  have pre: "\<And>t cu. map_of (connectedUsers s) t = Some cu \<Longrightarrow> map_of (sockets s) t \<noteq> None"
    using inv by (auto simp: inv_sessions_def)
  show "map_of (sockets (fst (step s e ev))) t \<noteq> None"
  proof (cases ev)
    case (Connect a)
    with post pre show ?thesis
      by (auto simp: connection_maps)
  next
    case (CreateRoom a d)
    with en have a: "map_of (sockets s) a \<noteq> None"
      by (simp add: connected_iff)
    from create_room_cases [of s e a d] CreateRoom post pre a show ?thesis
      by (auto split: if_splits)
  next
    case (Join a d)
    with en have a: "map_of (sockets s) a \<noteq> None"
      by (simp add: connected_iff)
    have keys: "(map_of (sockets (fst (join s e a d))) t = None) = (map_of (sockets s) t = None)"
      using join_sockets by (rule same_keys_None)
    show ?thesis
    proof (cases "map_of (chatRooms s) (rd_room d)")
      case None
      with Join post pre show ?thesis
        by (simp add: join_no_room)
    next
      case (Some r)
      from Join post join_sessions [OF Some, of e a t] pre a keys show ?thesis
        by (auto split: if_splits)
    qed
  next
    case (Chat a m)
    with post pre show ?thesis by simp
  next
    case (Leave a d)
    have keys: "(map_of (sockets (fst (leave s e a d))) t = None) = (map_of (sockets s) t = None)"
      using leave_sockets by (rule same_keys_None)
    show ?thesis
    proof (cases "map_of (chatRooms s) (rd_room d)")
      case None
      with Leave post pre show ?thesis
        by (simp add: leave_no_room)
    next
      case (Some r)
      from Leave post leave_sessions [OF Some mem, of e a t] pre keys show ?thesis
        by (auto split: if_splits)
    qed
  next
    case (GetRooms a)
    with post pre show ?thesis by simp
  next
    case (Disconnect a)
    show ?thesis
    proof (cases "map_of (connectedUsers s) a")
      case None
      with Disconnect post pre show ?thesis
        by (auto simp: disconnect_no_session disconnect_sockets_map)
    next
      case (Some cu)
      show ?thesis
      proof (cases "map_of (chatRooms s) (cu_room cu)")
        case None
        with Some Disconnect post pre show ?thesis
          by (auto simp: disconnect_no_room disconnect_sockets_map AList.delete_conv'
                split: if_splits)
      next
        case room: (Some r)
        from Disconnect post disconnect_sessions [OF Some room mem, of e t] pre show ?thesis
          by (auto simp: disconnect_sockets_map split: if_splits)
      qed
    qed
  qed
qed

subsection \<open>The owner's entry has the owner flag\<close>

lemma if_chain_then: "x = (if p then A else if c then B else C) \<Longrightarrow> \<not> p \<Longrightarrow> c \<Longrightarrow> x = B"
  by simp

lemma if_chain_else: "x = (if p then A else if c then B else C) \<Longrightarrow> \<not> p \<Longrightarrow> \<not> c \<Longrightarrow> x = C"
  by simp

lemma flag_set: "map_option (\<lambda>cu. cu\<lparr>cu_isOwner := True\<rparr>) x = Some cu' \<Longrightarrow> cu_isOwner cu'"
  by (cases x) auto

lemma inv_flag_step:
  assumes inv: "inv_flag s" and ses: "inv_sessions s" and mem: "inv_members s"
  shows "inv_flag (fst (step s e ev))"
  unfolding inv_flag_def
proof (intro allI impI)
  fix t cu' r'
  assume post: "map_of (connectedUsers (fst (step s e ev))) t = Some cu'"
    and room': "map_of (chatRooms (fst (step s e ev))) (cu_room cu') = Some r'"
    and own: "owner r' = t"
  have pre: "\<And>t cu r. map_of (connectedUsers s) t = Some cu \<Longrightarrow>
               map_of (chatRooms s) (cu_room cu) = Some r \<Longrightarrow> owner r = t \<Longrightarrow> cu_isOwner cu"
    using inv unfolding inv_flag_def by blast
  have live: "\<And>t cu. map_of (connectedUsers s) t = Some cu \<Longrightarrow> map_of (sockets s) t \<noteq> None"
    using ses by (auto simp: inv_sessions_def)
  show "cu_isOwner cu'"
  proof (cases ev)
    case (Connect a)
    with post room' own pre show ?thesis
      by (simp add: connection_maps)
  next
    case (CreateRoom a d)
    let ?s' = "fst (create_room s e a d)"
    from create_room_cases [of s e a d] show ?thesis
    proof
      assume "?s' = s"
      with CreateRoom post room' own pre show ?thesis
        by simp
    next
      assume E: "trim (roomName d) \<noteq> [] \<and>
        (\<forall>k'. map_of (chatRooms ?s') k' =
           (if k' = newRoomId e
            then Some \<lparr>rid = newRoomId e, rname = trim (roomName d), owner = a,
                      ownerName = cd_user d,
                      users = [\<lparr>socketId = a, nickname = cd_user d, joinedAt = now e,
                                isOwner = True\<rparr>],
                      createdAt = now e, isPrivate = False\<rparr>
            else map_of (chatRooms s) k')) \<and>
        (\<forall>t. map_of (connectedUsers ?s') t =
           (if t = a then Some \<lparr>username = cd_user d, cu_room = newRoomId e, cu_isOwner = True\<rparr>
            else map_of (connectedUsers s) t)) \<and>
        (\<forall>t. map_of (sockets ?s') t =
           (if t = a
            then map_option (\<lambda>rs. if newRoomId e \<in> set rs then rs else rs @ [newRoomId e])
                   (map_of (sockets s) a)
            else map_of (sockets s) t))"
      show ?thesis
      proof (cases "t = a")
        case True
        with E CreateRoom post show ?thesis
          by auto
      next
        case False
        with E CreateRoom post have old: "map_of (connectedUsers s) t = Some cu'"
          by simp
        from E CreateRoom room' own False have "map_of (chatRooms s) (cu_room cu') = Some r'"
          by (auto split: if_splits)
        with old own pre show ?thesis
          by metis
      qed
    qed
  next
    case (Join a d)
    show ?thesis
    proof (cases "map_of (chatRooms s) (rd_room d)")
      case None
      with Join post room' own pre show ?thesis
        by (simp add: join_no_room)
    next
      case (Some r)
      note S = join_sessions [OF Some, of e a t]
      note R = join_rooms [OF Some mem, of e a "cu_room cu'"]
      show ?thesis
      proof (cases "t = a")
        case True
        with Join post S have "cu' = \<lparr>username = rd_user d, cu_room = rd_room d,
                                       cu_isOwner = (owner r = a)\<rparr>"
          by simp
        with Join room' R own True show ?thesis
          by (auto split: if_splits)
      next
        case False
        with Join post S have old: "map_of (connectedUsers s) t = Some cu'"
          by simp
        from Join room' R obtain r0 where "map_of (chatRooms s) (cu_room cu') = Some r0"
          and "owner r' = owner r0"
          using Some by (auto split: if_splits option.splits)
        with old own pre show ?thesis
          by metis
      qed
    qed
  next
    case (Chat a m)
    with post room' own pre show ?thesis by simp
  next
    case (Leave a d)
    show ?thesis
    proof (cases "map_of (chatRooms s) (rd_room d)")
      case None
      with Leave post room' own pre show ?thesis
        by (simp add: leave_no_room)
    next
      case (Some r)
      note S = leave_sessions [OF Some mem, of e a t]
      from Leave post S have ta: "t \<noteq> a"
        by (auto split: if_splits)
      show ?thesis
      proof (cases "owner r = a \<and> remaining a r \<noteq> [] \<and> t = socketId (hd (remaining a r)) \<and>
                    map_of (sockets s) t \<noteq> None")
        case True
        from if_chain_then [OF S ta True] Leave post have
          "map_option (\<lambda>cu. cu\<lparr>cu_isOwner := True\<rparr>) (map_of (connectedUsers s) t) = Some cu'"
          by simp
        then show ?thesis
          by (rule flag_set)
      next
        case False
        from if_chain_else [OF S ta False] Leave post
        have old: "map_of (connectedUsers s) t = Some cu'"
          by simp
        then have conn: "map_of (sockets s) t \<noteq> None"
          by (rule live)
        note R = leave_rooms [OF Some mem, of e a "cu_room cu'"]
        from Leave room' R False conn own obtain r0 where
          "map_of (chatRooms s) (cu_room cu') = Some r0" and "owner r0 = t"
          using Some by (auto split: if_splits list.splits)
        with old pre show ?thesis
          by metis
      qed
    qed
  next
    case (GetRooms a)
    with post room' own pre show ?thesis by simp
  next
    case (Disconnect a)
    show ?thesis
    proof (cases "map_of (connectedUsers s) a")
      case None
      with Disconnect post room' own pre show ?thesis
        by (simp add: disconnect_no_session)
    next
      case (Some cu)
      show ?thesis
      proof (cases "map_of (chatRooms s) (cu_room cu)")
        case None
        with Some Disconnect post room' own pre show ?thesis
          by (auto simp: disconnect_no_room AList.delete_conv' split: if_splits)
      next
        case room: (Some r)
        note S = disconnect_sessions [OF Some room mem, of e t]
        from Disconnect post S have ta: "t \<noteq> a"
          by (auto split: if_splits)
        show ?thesis
        proof (cases "cu_isOwner cu \<and> remaining a r \<noteq> [] \<and> t = socketId (hd (remaining a r)) \<and>
                      map_of (sockets s) t \<noteq> None")
          case True
          from if_chain_then [OF S ta True] Disconnect post have
            "map_option (\<lambda>cu. cu\<lparr>cu_isOwner := True\<rparr>) (map_of (connectedUsers s) t) = Some cu'"
            by simp
          then show ?thesis
            by (rule flag_set)
        next
          case False
          from if_chain_else [OF S ta False] Disconnect post
          have old: "map_of (connectedUsers s) t = Some cu'"
            by simp
          then have conn: "map_of (sockets s) t \<noteq> None"
            by (rule live)
          note R = disconnect_rooms [OF Some room mem, of e "cu_room cu'"]
          from Disconnect room' R False conn own obtain r0 where
            "map_of (chatRooms s) (cu_room cu') = Some r0" and "owner r0 = t"
            using room by (auto split: if_splits list.splits)
          with old pre show ?thesis
            by metis
        qed
      qed
    qed
  qed
qed

subsection \<open>A connected socket has joined the rooms that list it\<close>

lemma mem_remaining:
  "t \<in> socketId ` set (remaining a r) \<longleftrightarrow> t \<noteq> a \<and> t \<in> socketId ` set (users r)"
  by (auto simp: remaining_def)

lemma inv_joined_connect:
  assumes inv: "inv_joined s" and en: "enabled s e (Connect a)"
  shows "inv_joined (connection s a)"
  unfolding inv_joined_def
proof (intro allI impI)
  fix t rs' k'
  assume post: "map_of (sockets (connection s a)) t = Some rs'"
  show "(k' \<in> set rs') =
        (\<exists>r. map_of (chatRooms (connection s a)) k' = Some r \<and> t \<in> socketId ` set (users r))"
  proof (cases "t = a")
    case True
    with post have "rs' = []"
      by (simp add: connection_maps)
    moreover have "\<not> (\<exists>r. map_of (chatRooms s) k' = Some r \<and> a \<in> socketId ` set (users r))"
    proof
      assume "\<exists>r. map_of (chatRooms s) k' = Some r \<and> a \<in> socketId ` set (users r)"
      then obtain r where r: "(k', r) \<in> set (chatRooms s)" "a \<in> socketId ` set (users r)"
        by (auto dest: map_of_SomeD)
      from en have "list_all (\<lambda>c. a \<notin> socketId ` set (users (snd c))) (chatRooms s)"
        by simp
      with r(1) have "a \<notin> socketId ` set (users r)"
        by (auto simp: list_all_iff)
      with r(2) show False by contradiction
    qed
    ultimately show ?thesis
      using True by (simp add: connection_maps)
  next
    case False
    with post have "map_of (sockets s) t = Some rs'"
      by (simp add: connection_maps)
    with inv show ?thesis
      unfolding inv_joined_def by (simp add: connection_maps)
  qed
qed

lemma inv_joined_create:
  assumes inv: "inv_joined s" and en: "enabled s e (CreateRoom a d)"
  shows "inv_joined (fst (create_room s e a d))"
proof -
  let ?s' = "fst (create_room s e a d)"
  let ?k = "newRoomId e"
  let ?new = "\<lparr>rid = ?k, rname = trim (roomName d), owner = a, ownerName = cd_user d,
               users = [\<lparr>socketId = a, nickname = cd_user d, joinedAt = now e, isOwner = True\<rparr>],
               createdAt = now e, isPrivate = False\<rparr>"
  from en have fresh: "map_of (chatRooms s) ?k = None"
    by (simp add: map_of_eq_None_iff)
  from create_room_cases [of s e a d] show ?thesis
  proof
    assume "?s' = s"
    with inv show ?thesis by simp
  next
    assume E: "trim (roomName d) \<noteq> [] \<and>
        (\<forall>k'. map_of (chatRooms ?s') k' =
           (if k' = ?k then Some ?new else map_of (chatRooms s) k')) \<and>
        (\<forall>t. map_of (connectedUsers ?s') t =
           (if t = a then Some \<lparr>username = cd_user d, cu_room = ?k, cu_isOwner = True\<rparr>
            else map_of (connectedUsers s) t)) \<and>
        (\<forall>t. map_of (sockets ?s') t =
           (if t = a
            then map_option (\<lambda>rs. if ?k \<in> set rs then rs else rs @ [?k]) (map_of (sockets s) a)
            else map_of (sockets s) t))"
    then have R: "\<And>k'. map_of (chatRooms ?s') k' =
                        (if k' = ?k then Some ?new else map_of (chatRooms s) k')"
      and S: "\<And>t. map_of (sockets ?s') t =
                (if t = a
                 then map_option (\<lambda>rs. if ?k \<in> set rs then rs else rs @ [?k]) (map_of (sockets s) a)
                 else map_of (sockets s) t)"
      by blast+
    show ?thesis
      unfolding inv_joined_def
    proof (intro allI impI)
      fix t rs' k'
      assume post: "map_of (sockets ?s') t = Some rs'"
      show "(k' \<in> set rs') =
            (\<exists>r. map_of (chatRooms ?s') k' = Some r \<and> t \<in> socketId ` set (users r))"
      proof (cases "t = a")
        case True
        with post S obtain rs where rs: "map_of (sockets s) a = Some rs"
          and rs': "rs' = (if ?k \<in> set rs then rs else rs @ [?k])"
          by (cases "map_of (sockets s) a") auto
        from inv rs have pre: "(k' \<in> set rs) =
            (\<exists>r. map_of (chatRooms s) k' = Some r \<and> a \<in> socketId ` set (users r))"
          unfolding inv_joined_def by blast
        show ?thesis
        proof (cases "k' = ?k")
          case k: True
          with rs' True show ?thesis
            by (simp add: R)
        next
          case False
          with rs' have "(k' \<in> set rs') = (k' \<in> set rs)"
            by auto
          with pre False True show ?thesis
            by (simp add: R)
        qed
      next
        case False
        with post S have rs: "map_of (sockets s) t = Some rs'"
          by simp
        from inv rs have pre: "\<And>k. (k \<in> set rs') =
            (\<exists>r. map_of (chatRooms s) k = Some r \<and> t \<in> socketId ` set (users r))"
          unfolding inv_joined_def by blast
        show ?thesis
        proof (cases "k' = ?k")
          case True
          with pre [of ?k] fresh have "?k \<notin> set rs'"
            by simp
          with True False show ?thesis
            by (simp add: R)
        next
          case k: False
          with pre [of k'] show ?thesis
            by (simp add: R)
        qed
      qed
    qed
  qed
qed

lemma members_after_gone:
  "(\<exists>r'. (if c
          then (case remaining a r of
                  [] \<Rightarrow> None
                | new # x \<Rightarrow>
                    Some (r\<lparr>owner := socketId new, ownerName := nickname new,
                            users := remaining a r\<rparr>))
          else Some (r\<lparr>users := remaining a r\<rparr>)) = Some r' \<and>
         t \<in> socketId ` set (users r')) =
   (t \<in> socketId ` set (remaining a r))"
  by (cases "remaining a r") auto

lemma members_after_removal:
  "t \<noteq> a \<Longrightarrow>
   (\<exists>r'. map_option (\<lambda>r. r\<lparr>users := remaining a r\<rparr>) x = Some r' \<and>
         t \<in> socketId ` set (users r')) =
   (\<exists>r0. x = Some r0 \<and> t \<in> socketId ` set (users r0))"
  by (cases x) (simp_all add: mem_remaining)

lemma gone_after_removal:
  "\<not> (\<exists>r'. map_option (\<lambda>r. r\<lparr>users := remaining a r\<rparr>) x = Some r' \<and>
           a \<in> socketId ` set (users r'))"
  by (cases x) (simp_all add: mem_remaining)

lemma inv_joined_join:
  assumes inv: "inv_joined s" and mem: "inv_members s"
  shows "inv_joined (fst (join s e a d))"
proof (cases "map_of (chatRooms s) (rd_room d)")
  case None
  with inv show ?thesis by (simp add: join_no_room)
next
  case (Some r)
  let ?s' = "fst (join s e a d)"
  let ?k = "rd_room d"
  note R = join_rooms [OF Some mem, of e a]
  note S = join_sockets_map [OF Some, of e a]
  have pre: "\<And>t rs k. map_of (sockets s) t = Some rs \<Longrightarrow>
               (k \<in> set rs) =
               (\<exists>r. map_of (chatRooms s) k = Some r \<and> t \<in> socketId ` set (users r))"
    using inv unfolding inv_joined_def by blast
  show ?thesis
    unfolding inv_joined_def
  proof (intro allI impI)
    fix t rs' k'
    assume post: "map_of (sockets ?s') t = Some rs'"
    show "(k' \<in> set rs') =
          (\<exists>r. map_of (chatRooms ?s') k' = Some r \<and> t \<in> socketId ` set (users r))"
    proof (cases "t = a")
      case ta: True
      show ?thesis
      proof (cases "k' = ?k")
        case True
        from post ta S [of a] have "?k \<in> set rs'"
          by (auto split: option.splits if_splits)
        moreover have "\<exists>r'. map_of (chatRooms ?s') ?k = Some r' \<and> a \<in> socketId ` set (users r')"
          by (auto simp: R)
        ultimately show ?thesis
          using True ta by simp
      next
        case False
        show ?thesis
        proof (cases "map_of (connectedUsers s) a")
          case None
          with post ta S [of a] obtain rs where rs: "map_of (sockets s) a = Some rs"
            and rs': "rs' = (if ?k \<in> set rs then rs else rs @ [?k])"
            by (cases "map_of (sockets s) a") auto
          from rs' False have "(k' \<in> set rs') = (k' \<in> set rs)"
            by auto
          with pre [OF rs, of k'] None False ta show ?thesis
            by (simp add: R)
        next
          case cu: (Some cu)
          show ?thesis
          proof (cases "cu_room cu = ?k")
            case True
            with cu post ta S [of a] obtain rs where rs: "map_of (sockets s) a = Some rs"
              and rs': "rs' = (if ?k \<in> set rs then rs else rs @ [?k])"
              by (cases "map_of (sockets s) a") auto
            from rs' False have "(k' \<in> set rs') = (k' \<in> set rs)"
              by auto
            with pre [OF rs, of k'] cu True False ta show ?thesis
              by (simp add: R)
          next
            case old: False
            with cu post ta S [of a] obtain rs where rs: "map_of (sockets s) a = Some rs"
              and rs': "rs' = (if ?k \<in> set (removeAll (cu_room cu) rs)
                              then removeAll (cu_room cu) rs
                              else removeAll (cu_room cu) rs @ [?k])"
              by (cases "map_of (sockets s) a") auto
            from rs' False have in': "(k' \<in> set rs') = (k' \<in> set rs \<and> k' \<noteq> cu_room cu)"
              by auto
            show ?thesis
            proof (cases "k' = cu_room cu")
              case True
              have "\<not> (\<exists>r'. map_of (chatRooms ?s') k' = Some r' \<and>
                               a \<in> socketId ` set (users r'))"
                using True cu False gone_after_removal [of a "map_of (chatRooms s) k'"]
                by (simp add: R)
              with in' True ta show ?thesis
                by simp
            next
              case k: False
              with in' pre [OF rs, of k'] cu False ta show ?thesis
                by (simp add: R)
            qed
          qed
        qed
      qed
    next
      case ta: False
      with post S [of t] have rs: "map_of (sockets s) t = Some rs'"
        by simp
      note P = pre [OF rs, of k']
      show ?thesis
      proof (cases "k' = ?k")
        case True
        with P Some ta show ?thesis
          by (auto simp: R)
      next
        case False
        show ?thesis
        proof (cases "map_of (connectedUsers s) a")
          case None
          with P False show ?thesis
            by (simp add: R)
        next
          case cu: (Some cu)
          show ?thesis
          proof (cases "k' = cu_room cu")
            case True
            with P False cu members_after_removal [OF ta, of "map_of (chatRooms s) k'"]
            show ?thesis
              by (simp add: R)
          next
            case k: False
            with P False cu show ?thesis
              by (simp add: R)
          qed
        qed
      qed
    qed
  qed
qed

lemma inv_joined_leave:
  assumes inv: "inv_joined s" and mem: "inv_members s"
  shows "inv_joined (fst (leave s e a d))"
proof (cases "map_of (chatRooms s) (rd_room d)")
  case None
  with inv show ?thesis by (simp add: leave_no_room)
next
  case (Some r)
  let ?s' = "fst (leave s e a d)"
  let ?k = "rd_room d"
  note R = leave_rooms [OF Some mem, of e a]
  note S = leave_sockets_map [OF Some, of e a]
  have pre: "\<And>t rs k. map_of (sockets s) t = Some rs \<Longrightarrow>
               (k \<in> set rs) =
               (\<exists>r. map_of (chatRooms s) k = Some r \<and> t \<in> socketId ` set (users r))"
    using inv unfolding inv_joined_def by blast
  show ?thesis
    unfolding inv_joined_def
  proof (intro allI impI)
    fix t rs' k'
    assume post: "map_of (sockets ?s') t = Some rs'"
    show "(k' \<in> set rs') =
          (\<exists>r. map_of (chatRooms ?s') k' = Some r \<and> t \<in> socketId ` set (users r))"
    proof (cases "t = a")
      case ta: True
      with post S [of a] obtain rs where rs: "map_of (sockets s) a = Some rs"
        and rs': "rs' = removeAll ?k rs"
        by (cases "map_of (sockets s) a") auto
      show ?thesis
      proof (cases "k' = ?k")
        case True
        have "\<not> (\<exists>r'. map_of (chatRooms ?s') ?k = Some r' \<and> a \<in> socketId ` set (users r'))"
          unfolding R using members_after_gone [of "owner r = a" a r a]
          by (simp add: mem_remaining)
        with rs' True ta show ?thesis
          by simp
      next
        case False
        with rs' pre [OF rs, of k'] ta show ?thesis
          by (simp add: R)
      qed
    next
      case ta: False
      with post S [of t] have rs: "map_of (sockets s) t = Some rs'"
        by simp
      note P = pre [OF rs, of k']
      show ?thesis
      proof (cases "k' = ?k")
        case False
        with P show ?thesis
          by (simp add: R)
      next
        case True
        have "(\<exists>r'. map_of (chatRooms ?s') ?k = Some r' \<and> t \<in> socketId ` set (users r')) =
              (t \<in> socketId ` set (remaining a r))"
          unfolding R using members_after_gone [of "owner r = a" a r t]
          by simp
        with P True Some ta show ?thesis
          by (simp add: mem_remaining)
      qed
    qed
  qed
qed

lemma inv_joined_disconnect:
  assumes inv: "inv_joined s" and mem: "inv_members s"
  shows "inv_joined (fst (disconnect s e a))"
proof -
  let ?s' = "fst (disconnect s e a)"
  note S = disconnect_sockets_map [of s e a]
  have pre: "\<And>t rs k. map_of (sockets s) t = Some rs \<Longrightarrow>
               (k \<in> set rs) =
               (\<exists>r. map_of (chatRooms s) k = Some r \<and> t \<in> socketId ` set (users r))"
    using inv unfolding inv_joined_def by blast
  show ?thesis
    unfolding inv_joined_def
  proof (intro allI impI)
    fix t rs' k'
    assume post: "map_of (sockets ?s') t = Some rs'"
    with S [of t] have ta: "t \<noteq> a" and rs: "map_of (sockets s) t = Some rs'"
      by (auto split: if_splits)
    note P = pre [OF rs, of k']
    show "(k' \<in> set rs') =
          (\<exists>r. map_of (chatRooms ?s') k' = Some r \<and> t \<in> socketId ` set (users r))"
    proof (cases "map_of (connectedUsers s) a")
      case None
      with P show ?thesis
        by (simp add: disconnect_no_session)
    next
      case (Some cu)
      show ?thesis
      proof (cases "map_of (chatRooms s) (cu_room cu)")
        case None
        with Some P show ?thesis
          by (simp add: disconnect_no_room)
      next
        case room: (Some r)
        note R = disconnect_rooms [OF Some room mem, of e]
        show ?thesis
        proof (cases "k' = cu_room cu")
          case False
          with P show ?thesis
            by (simp add: R)
        next
          case True
          have "(\<exists>r'. map_of (chatRooms ?s') (cu_room cu) = Some r' \<and>
                      t \<in> socketId ` set (users r')) =
                (t \<in> socketId ` set (remaining a r))"
            unfolding R using members_after_gone [of "cu_isOwner cu" a r t]
            by simp
          with P True room ta show ?thesis
            by (simp add: mem_remaining)
        qed
      qed
    qed
  qed
qed

subsection \<open>Every reachable state has the properties\<close>

lemma inv_joined_step:
  assumes "inv_joined s" and "inv_members s" and "enabled s e ev"
  shows "inv_joined (fst (step s e ev))"
proof (cases ev)
  case (Connect a)
  with assms inv_joined_connect [of s e a] show ?thesis by simp
next
  case (CreateRoom a d)
  with assms inv_joined_create [of s e a d] show ?thesis by simp
next
  case (Join a d)
  with assms inv_joined_join [of s e a d] show ?thesis by simp
next
  case (Chat a m)
  with assms show ?thesis by simp
next
  case (Leave a d)
  with assms inv_joined_leave [of s e a d] show ?thesis by simp
next
  case (GetRooms a)
  with assms show ?thesis by simp
next
  case (Disconnect a)
  with assms inv_joined_disconnect [of s e a] show ?thesis by simp
qed

lemma reachable_inv:
  assumes "reachable s"
  shows "inv_sockets s \<and> inv_members s \<and> inv_names s \<and> inv_sessions s \<and> inv_joined s \<and>
         inv_flag s"
  using assms
proof (induction rule: reachable.induct)
  case reachable_startup
  show ?case
    by (simp add: startup_def inv_sockets_def inv_members_def inv_names_def inv_sessions_def
          inv_joined_def inv_flag_def)
next
  case (reachable_step s e ev)
  then show ?case
    using inv_sockets_step [of s e ev] inv_members_step [of s e ev] inv_names_step [of s e ev]
      inv_sessions_step [of s e ev] inv_joined_step [of s e ev] inv_flag_step [of s e ev]
    by blast
qed

subsection \<open>Rooms have members, and the first of them is the owner\<close>

lemma remaining_keeps_head:
  assumes "users r \<noteq> []" and "socketId (hd (users r)) \<noteq> a"
  shows "remaining a r \<noteq> [] \<and> hd (remaining a r) = hd (users r)"
  using assms by (cases "users r") (simp_all add: remaining_def)

lemma inv_owner_step:
  assumes ok: "inv_owner s" and mem: "inv_members s" and flag: "inv_flag s"
    and other: "\<not> owner_moves s ev"
  shows "inv_owner (fst (step s e ev))"
  unfolding inv_owner_def
proof (intro allI impI)
  fix k' r'
  assume post: "map_of (chatRooms (fst (step s e ev))) k' = Some r'"
  have pre: "\<And>k r. map_of (chatRooms s) k = Some r \<Longrightarrow>
               users r \<noteq> [] \<and> owner r = socketId (hd (users r))"
    using ok by (auto simp: inv_owner_def)
  have gone: "remaining a r \<noteq> [] \<and> owner r = socketId (hd (remaining a r))"
    if "map_of (chatRooms s) k = Some r" and "owner r \<noteq> a" for k r a
  proof -
    from pre [OF that(1)] have "users r \<noteq> []" and "owner r = socketId (hd (users r))"
      by simp_all
    with that(2) remaining_keeps_head [of r a] show ?thesis
      by simp
  qed
  show "users r' \<noteq> [] \<and> owner r' = socketId (hd (users r'))"
  proof (cases ev)
    case (Connect a)
    with post pre show ?thesis
      by (simp add: connection_def)
  next
    case (CreateRoom a d)
    with post pre create_room_rooms [of s e a d k'] show ?thesis
      by auto
  next
    case (Join a d)
    show ?thesis
    proof (cases "map_of (chatRooms s) (rd_room d)")
      case None
      with Join post pre show ?thesis
        by (simp add: join_no_room)
    next
      case (Some r)
      note J = join_rooms [OF Some mem, of e a k']
      show ?thesis
      proof (cases "k' = rd_room d")
        case True
        with Join post J pre [OF Some] show ?thesis
          by (auto split: if_splits)
      next
        case False
        show ?thesis
        proof (cases "map_of (connectedUsers s) a")
          case None
          with Join post J False pre show ?thesis
            by simp
        next
          case cu: (Some cu)
          show ?thesis
          proof (cases "k' = cu_room cu")
            case k: False
            with Join post J False cu pre show ?thesis
              by simp
          next
            case True
            with Join post J False cu obtain r0 where r0: "map_of (chatRooms s) k' = Some r0"
              and r': "r' = r0\<lparr>users := remaining a r0\<rparr>"
              by (cases "map_of (chatRooms s) k'") auto
            from other Join cu True r0 False Some have "owner r0 \<noteq> a"
              by auto
            with gone [OF r0] r' show ?thesis
              by simp
          qed
        qed
      qed
    qed
  next
    case (Chat a m)
    with post pre show ?thesis by simp
  next
    case (Leave a d)
    show ?thesis
    proof (cases "map_of (chatRooms s) (rd_room d)")
      case None
      with Leave post pre show ?thesis
        by (simp add: leave_no_room)
    next
      case (Some r)
      note L = leave_rooms [OF Some mem, of e a k']
      show ?thesis
      proof (cases "k' = rd_room d")
        case False
        with Leave post L pre show ?thesis
          by simp
      next
        case True
        show ?thesis
        proof (cases "owner r = a")
          case own: True
          with Leave post L True show ?thesis
            by (auto split: list.splits)
        next
          case False
          with Leave post L True gone [OF Some False] show ?thesis
            by auto
        qed
      qed
    qed
  next
    case (GetRooms a)
    with post pre show ?thesis by simp
  next
    case (Disconnect a)
    show ?thesis
    proof (cases "map_of (connectedUsers s) a")
      case None
      with Disconnect post pre show ?thesis
        by (simp add: disconnect_no_session)
    next
      case (Some cu)
      show ?thesis
      proof (cases "map_of (chatRooms s) (cu_room cu)")
        case None
        with Some Disconnect post pre show ?thesis
          by (simp add: disconnect_no_room)
      next
        case room: (Some r)
        note D = disconnect_rooms [OF Some room mem, of e k']
        show ?thesis
        proof (cases "k' = cu_room cu")
          case False
          with Disconnect post D pre show ?thesis
            by simp
        next
          case True
          show ?thesis
          proof (cases "cu_isOwner cu")
            case own: True
            with Disconnect post D True show ?thesis
              by (auto split: list.splits)
          next
            case False
            with flag Some room have "owner r \<noteq> a"
              unfolding inv_flag_def by blast
            with Disconnect post D True False gone [OF room] show ?thesis
              by auto
          qed
        qed
      qed
    qed
  qed
qed

lemma rooms_kept:
  assumes "reachable s" and "inv_owner s" and "\<not> owner_moves s ev"
  shows "inv_owner (fst (step s e ev))"
  using assms reachable_inv [of s] inv_owner_step [of s ev e] by blast

lemma owner_moves_breaks:
  assumes "reachable s" and "owner_moves s ev"
  shows "\<not> inv_owner (fst (step s e ev))"
proof (cases ev)
  case (Join a d)
  from assms(1) have mem: "inv_members s"
    by (simp add: reachable_inv)
  from assms(2) Join obtain cu r0 r where cu: "map_of (connectedUsers s) a = Some cu"
    and r0: "map_of (chatRooms s) (cu_room cu) = Some r0"
    and ne: "cu_room cu \<noteq> rd_room d" and own: "owner r0 = a"
    and r: "map_of (chatRooms s) (rd_room d) = Some r"
    by (auto split: option.splits)
  from join_rooms [OF r mem, of e a "cu_room cu"] cu r0 ne
  have post: "map_of (chatRooms (fst (join s e a d))) (cu_room cu) =
                Some (r0\<lparr>users := remaining a r0\<rparr>)"
    by simp
  have "remaining a r0 = [] \<or> socketId (hd (remaining a r0)) \<noteq> a"
  proof (cases "remaining a r0")
    case Nil
    then show ?thesis by simp
  next
    case (Cons u us)
    then have "u \<in> set (remaining a r0)"
      by simp
    then have "socketId u \<noteq> a"
      by (rule remaining_not_gone)
    with Cons show ?thesis by simp
  qed
  with own have "\<not> (users (r0\<lparr>users := remaining a r0\<rparr>) \<noteq> [] \<and>
                    owner (r0\<lparr>users := remaining a r0\<rparr>) =
                      socketId (hd (users (r0\<lparr>users := remaining a r0\<rparr>))))"
    by auto
  with post Join show ?thesis
    unfolding inv_owner_def by (metis step.simps(3))
qed (use assms(2) in simp_all)

subsection \<open>The example runs, evaluated\<close>

lemmas run_defs =
  connection_def create_room_def join_def leave_def disconnect_def chat_message_def
  get_rooms_def ownerGone_def roomObject_def transferOwnership_def removeUserFromRoom_def
  splice1_def socket_join_def socket_leave_def socket_emit_def io_emit_def io_to_def
  socket_to_def broadcastRoomsList_def sendRoomsListToClient_def roomsList_def summary_def
  trim_def trimStart.simps whiteSpace_def asciiLower_def lowerChar_def Let_def at_def startup_def

lemma connected3_eq:
  "connected3 =
     \<lparr>chatRooms = [], connectedUsers = [],
      sockets = [(''A'', []), (''B'', []), (''C'', [])]\<rparr>"
  by (simp add: connected3_def run_defs)

lemma lobby_A_eq:
  "lobby_A =
     \<lparr>chatRooms =
        [(''room_1'',
          \<lparr>rid = ''room_1'', rname = ''Lobby'', owner = ''A'', ownerName = ''alice'',
           users = [\<lparr>socketId = ''A'', nickname = ''alice'', joinedAt = 1, isOwner = True\<rparr>],
           createdAt = 1, isPrivate = False\<rparr>)],
      connectedUsers =
        [(''A'', \<lparr>username = ''alice'', cu_room = ''room_1'', cu_isOwner = True\<rparr>)],
      sockets = [(''A'', [''room_1'']), (''B'', []), (''C'', [])]\<rparr>"
  unfolding lobby_A_def connected3_eq by (simp add: run_defs)

lemma lobby_AB_eq:
  "lobby_AB =
     \<lparr>chatRooms =
        [(''room_1'',
          \<lparr>rid = ''room_1'', rname = ''Lobby'', owner = ''A'', ownerName = ''alice'',
           users = [\<lparr>socketId = ''A'', nickname = ''alice'', joinedAt = 1, isOwner = True\<rparr>,
                    \<lparr>socketId = ''B'', nickname = ''bob'', joinedAt = 2, isOwner = False\<rparr>],
           createdAt = 1, isPrivate = False\<rparr>)],
      connectedUsers =
        [(''A'', \<lparr>username = ''alice'', cu_room = ''room_1'', cu_isOwner = True\<rparr>),
         (''B'', \<lparr>username = ''bob'', cu_room = ''room_1'', cu_isOwner = False\<rparr>)],
      sockets = [(''A'', [''room_1'']), (''B'', [''room_1'']), (''C'', [])]\<rparr>"
  unfolding lobby_AB_def lobby_A_eq by (simp add: run_defs)

lemma lobby_ABC_eq:
  "lobby_ABC =
     \<lparr>chatRooms =
        [(''room_1'',
          \<lparr>rid = ''room_1'', rname = ''Lobby'', owner = ''A'', ownerName = ''alice'',
           users = [\<lparr>socketId = ''A'', nickname = ''alice'', joinedAt = 1, isOwner = True\<rparr>,
                    \<lparr>socketId = ''B'', nickname = ''bob'', joinedAt = 2, isOwner = False\<rparr>,
                    \<lparr>socketId = ''C'', nickname = ''carol'', joinedAt = 3, isOwner = False\<rparr>],
           createdAt = 1, isPrivate = False\<rparr>)],
      connectedUsers =
        [(''A'', \<lparr>username = ''alice'', cu_room = ''room_1'', cu_isOwner = True\<rparr>),
         (''B'', \<lparr>username = ''bob'', cu_room = ''room_1'', cu_isOwner = False\<rparr>),
         (''C'', \<lparr>username = ''carol'', cu_room = ''room_1'', cu_isOwner = False\<rparr>)],
      sockets = [(''A'', [''room_1'']), (''B'', [''room_1'']), (''C'', [''room_1''])]\<rparr>"
  unfolding lobby_ABC_def lobby_AB_eq by (simp add: run_defs)

lemma two_rooms_eq:
  "two_rooms =
     \<lparr>chatRooms =
        [(''room_1'',
          \<lparr>rid = ''room_1'', rname = ''Lobby'', owner = ''A'', ownerName = ''alice'',
           users = [\<lparr>socketId = ''A'', nickname = ''alice'', joinedAt = 1, isOwner = True\<rparr>,
                    \<lparr>socketId = ''B'', nickname = ''bob'', joinedAt = 2, isOwner = False\<rparr>],
           createdAt = 1, isPrivate = False\<rparr>),
         (''room_2'',
          \<lparr>rid = ''room_2'', rname = ''Games'', owner = ''C'', ownerName = ''carol'',
           users = [\<lparr>socketId = ''C'', nickname = ''carol'', joinedAt = 3, isOwner = True\<rparr>],
           createdAt = 3, isPrivate = False\<rparr>)],
      connectedUsers =
        [(''A'', \<lparr>username = ''alice'', cu_room = ''room_1'', cu_isOwner = True\<rparr>),
         (''B'', \<lparr>username = ''bob'', cu_room = ''room_1'', cu_isOwner = False\<rparr>),
         (''C'', \<lparr>username = ''carol'', cu_room = ''room_2'', cu_isOwner = True\<rparr>)],
      sockets = [(''A'', [''room_1'']), (''B'', [''room_1'']), (''C'', [''room_2''])]\<rparr>"
  unfolding two_rooms_def lobby_AB_eq by (simp add: run_defs)

lemma two_single_eq:
  "two_single =
     \<lparr>chatRooms =
        [(''room_1'',
          \<lparr>rid = ''room_1'', rname = ''Lobby'', owner = ''A'', ownerName = ''alice'',
           users = [\<lparr>socketId = ''A'', nickname = ''alice'', joinedAt = 1, isOwner = True\<rparr>],
           createdAt = 1, isPrivate = False\<rparr>),
         (''room_2'',
          \<lparr>rid = ''room_2'', rname = ''Games'', owner = ''C'', ownerName = ''carol'',
           users = [\<lparr>socketId = ''C'', nickname = ''carol'', joinedAt = 3, isOwner = True\<rparr>],
           createdAt = 3, isPrivate = False\<rparr>)],
      connectedUsers =
        [(''A'', \<lparr>username = ''alice'', cu_room = ''room_1'', cu_isOwner = True\<rparr>),
         (''C'', \<lparr>username = ''carol'', cu_room = ''room_2'', cu_isOwner = True\<rparr>)],
      sockets = [(''A'', [''room_1'']), (''B'', []), (''C'', [''room_2''])]\<rparr>"
  unfolding two_single_def lobby_A_eq by (simp add: run_defs)

lemma owner_elsewhere_eq:
  "owner_elsewhere =
     \<lparr>chatRooms =
        [(''room_1'',
          \<lparr>rid = ''room_1'', rname = ''Lobby'', owner = ''A'', ownerName = ''alice'',
           users = [\<lparr>socketId = ''A'', nickname = ''alice'', joinedAt = 1, isOwner = True\<rparr>,
                    \<lparr>socketId = ''B'', nickname = ''bob'', joinedAt = 2, isOwner = False\<rparr>],
           createdAt = 1, isPrivate = False\<rparr>),
         (''room_2'',
          \<lparr>rid = ''room_2'', rname = ''Games'', owner = ''A'', ownerName = ''alice'',
           users = [\<lparr>socketId = ''A'', nickname = ''alice'', joinedAt = 3, isOwner = True\<rparr>],
           createdAt = 3, isPrivate = False\<rparr>)],
      connectedUsers =
        [(''A'', \<lparr>username = ''alice'', cu_room = ''room_2'', cu_isOwner = True\<rparr>),
         (''B'', \<lparr>username = ''bob'', cu_room = ''room_1'', cu_isOwner = False\<rparr>)],
      sockets = [(''A'', [''room_1'', ''room_2'']), (''B'', [''room_1'']), (''C'', [])]\<rparr>"
  unfolding owner_elsewhere_def lobby_AB_eq by (simp add: run_defs)

lemma rooms_list_after_create:
  "roomsList (fst (create_room lobby_AB (at 3 ''room_2'') ''C''
                     \<lparr>cd_user = ''carol'', roomName = ''Games''\<rparr>)) =
     [\<lparr>rs_id = ''room_1'', rs_name = ''Lobby'', rs_owner = ''alice'', userCount = 2,
       rs_users = [''alice'', ''bob''], rs_createdAt = 1, rs_isPrivate = False\<rparr>,
      \<lparr>rs_id = ''room_2'', rs_name = ''Games'', rs_owner = ''carol'', userCount = 1,
       rs_users = [''carol''], rs_createdAt = 3, rs_isPrivate = False\<rparr>]"
  by (simp add: lobby_AB_eq run_defs)

lemma rooms_list_after_join:
  "roomsList (fst (join lobby_AB (at 3 ''room_2'') ''C''
                     \<lparr>rd_user = ''carol'', rd_room = ''room_1''\<rparr>)) =
     [\<lparr>rs_id = ''room_1'', rs_name = ''Lobby'', rs_owner = ''alice'', userCount = 3,
       rs_users = [''alice'', ''bob'', ''carol''], rs_createdAt = 1, rs_isPrivate = False\<rparr>]"
  by (simp add: lobby_AB_eq run_defs)

lemma rooms_list_after_leave:
  "roomsList (fst (leave lobby_AB (at 3 ''room_2'') ''B''
                     \<lparr>rd_user = ''bob'', rd_room = ''room_1''\<rparr>)) =
     [\<lparr>rs_id = ''room_1'', rs_name = ''Lobby'', rs_owner = ''alice'', userCount = 1,
       rs_users = [''alice''], rs_createdAt = 1, rs_isPrivate = False\<rparr>]"
  by (simp add: lobby_AB_eq run_defs)

subsection \<open>The example runs are reachable\<close>

lemma reachable_connected3: "reachable connected3"
proof -
  let ?e = "at 0 ''room_1''"
  have r0: "reachable startup"
    by (rule reachable_startup)
  have "enabled startup ?e (Connect ''A'')"
    by (simp add: startup_def connected_def)
  from reachable_step [OF r0 this] have r1: "reachable (connection startup ''A'')"
    by simp
  have "enabled (connection startup ''A'') ?e (Connect ''B'')"
    by (simp add: startup_def connection_def connected_def)
  from reachable_step [OF r1 this] have r2: "reachable (connection (connection startup ''A'') ''B'')"
    by simp
  have "enabled (connection (connection startup ''A'') ''B'') ?e (Connect ''C'')"
    by (simp add: startup_def connection_def connected_def)
  from reachable_step [OF r2 this] show ?thesis
    by (simp add: connected3_def)
qed

lemma reachable_lobby_A: "reachable lobby_A"
proof -
  have "enabled connected3 (at 1 ''room_1'') (CreateRoom ''A'' \<lparr>cd_user = ''alice'', roomName = ''Lobby''\<rparr>)"
    by (simp add: connected3_eq connected_def at_def)
  from reachable_step [OF reachable_connected3 this] show ?thesis
    by (simp add: lobby_A_def)
qed

lemma reachable_lobby_AB: "reachable lobby_AB"
proof -
  have "enabled lobby_A (at 2 ''room_2'') (Join ''B'' \<lparr>rd_user = ''bob'', rd_room = ''room_1''\<rparr>)"
    by (simp add: lobby_A_eq connected_def)
  from reachable_step [OF reachable_lobby_A this] show ?thesis
    by (simp add: lobby_AB_def)
qed

lemma reachable_lobby_ABC: "reachable lobby_ABC"
proof -
  have "enabled lobby_AB (at 3 ''room_2'') (Join ''C'' \<lparr>rd_user = ''carol'', rd_room = ''room_1''\<rparr>)"
    by (simp add: lobby_AB_eq connected_def)
  from reachable_step [OF reachable_lobby_AB this] show ?thesis
    by (simp add: lobby_ABC_def)
qed

lemma reachable_two_rooms: "reachable two_rooms"
proof -
  have "enabled lobby_AB (at 3 ''room_2'') (CreateRoom ''C'' \<lparr>cd_user = ''carol'', roomName = ''Games''\<rparr>)"
    by (simp add: lobby_AB_eq connected_def at_def)
  from reachable_step [OF reachable_lobby_AB this] show ?thesis
    by (simp add: two_rooms_def)
qed

lemma reachable_two_single: "reachable two_single"
proof -
  have "enabled lobby_A (at 3 ''room_2'') (CreateRoom ''C'' \<lparr>cd_user = ''carol'', roomName = ''Games''\<rparr>)"
    by (simp add: lobby_A_eq connected_def at_def)
  from reachable_step [OF reachable_lobby_A this] show ?thesis
    by (simp add: two_single_def)
qed

lemma reachable_owner_elsewhere: "reachable owner_elsewhere"
proof -
  have "enabled lobby_AB (at 3 ''room_2'') (CreateRoom ''A'' \<lparr>cd_user = ''alice'', roomName = ''Games''\<rparr>)"
    by (simp add: lobby_AB_eq connected_def at_def)
  from reachable_step [OF reachable_lobby_AB this] show ?thesis
    by (simp add: owner_elsewhere_def)
qed

text \<open>
  A member need not be connected. The \<open>leave\<close> of a room the socket is not in deletes
  its entry of \<open>connectedUsers\<close>, and \<open>disconnect\<close> then finds no room to clean: Bob
  stays in the users of the Lobby when his socket has closed.
\<close>

lemma ghost_member_eq:
  "ghost_member =
     \<lparr>chatRooms =
        [(''room_1'',
          \<lparr>rid = ''room_1'', rname = ''Lobby'', owner = ''A'', ownerName = ''alice'',
           users = [\<lparr>socketId = ''A'', nickname = ''alice'', joinedAt = 1, isOwner = True\<rparr>,
                    \<lparr>socketId = ''B'', nickname = ''bob'', joinedAt = 2, isOwner = False\<rparr>],
           createdAt = 1, isPrivate = False\<rparr>),
         (''room_2'',
          \<lparr>rid = ''room_2'', rname = ''Games'', owner = ''C'', ownerName = ''carol'',
           users = [\<lparr>socketId = ''C'', nickname = ''carol'', joinedAt = 3, isOwner = True\<rparr>],
           createdAt = 3, isPrivate = False\<rparr>)],
      connectedUsers =
        [(''A'', \<lparr>username = ''alice'', cu_room = ''room_1'', cu_isOwner = True\<rparr>),
         (''C'', \<lparr>username = ''carol'', cu_room = ''room_2'', cu_isOwner = True\<rparr>)],
      sockets = [(''A'', [''room_1'']), (''C'', [''room_2''])]\<rparr>"
  by (simp add: ghost_member_def two_rooms_eq run_defs)

lemma reachable_ghost_member: "reachable ghost_member"
proof -
  let ?l = "Leave ''B'' \<lparr>rd_user = ''bob'', rd_room = ''room_2''\<rparr>"
  have "enabled two_rooms (at 4 ''room_3'') ?l"
    by (simp add: two_rooms_eq connected_def)
  from reachable_step [OF reachable_two_rooms this]
  have r: "reachable (fst (leave two_rooms (at 4 ''room_3'') ''B''
                             \<lparr>rd_user = ''bob'', rd_room = ''room_2''\<rparr>))"
    by simp
  have "enabled (fst (leave two_rooms (at 4 ''room_3'') ''B''
                        \<lparr>rd_user = ''bob'', rd_room = ''room_2''\<rparr>))
          (at 5 ''room_3'') (Disconnect ''B'')"
    by (simp add: connected_def leave_sockets two_rooms_eq)
  from reachable_step [OF r this] show ?thesis
    by (simp add: ghost_member_def)
qed

section \<open>Properties of the handlers\<close>

subsection \<open>The owner goes\<close>

lemma succession_of_owner:
  assumes room: "map_of (chatRooms s) k = Some room"
    and own: "owner room = a"
    and two: "2 \<le> length (users room)"
    and dist: "distinct (map socketId (users room))"
    and joined: "\<forall>u \<in> set (remaining a room).
                   \<forall>rs. map_of (sockets s) (socketId u) = Some rs \<longrightarrow> k \<in> set rs"
  shows "succession s k room a (now e) (leave s e a \<lparr>rd_user = n, rd_room = k\<rparr>) \<and>
         (\<forall>cu. map_of (connectedUsers s) a = Some cu \<and> cu_room cu = k \<and> cu_isOwner cu \<longrightarrow>
               succession s k room a (now e) (disconnect s e a))"
proof (intro conjI allI impI)
  let ?s1 = "socket_leave s a k"
  let ?s2 = "fst (removeUserFromRoom ?s1 k a)"
  let ?r = "room\<lparr>users := remaining a room\<rparr>"
  let ?g = "ownerGone ?s2 e k ?r"
  have r2: "map_of (chatRooms ?s2) k = Some ?r"
    using room dist by (simp add: removeUserFromRoom_room)
  have same: "\<And>u. u \<in> set (remaining a room) \<Longrightarrow>
                map_of (sockets ?s2) (socketId u) = map_of (sockets s) (socketId u)"
    by (simp add: socket_leave_other remaining_not_gone)
  have joined2: "\<forall>u \<in> set (remaining a room).
                   \<forall>rs. map_of (sockets ?s2) (socketId u) = Some rs \<longrightarrow> k \<in> set rs"
    using joined same by simp
  note S = succession_after_removal [OF r2 two dist joined2 refl, of e]
  have new: "hd (remaining a room) \<in> set (remaining a room)"
    using remaining_hd [OF two dist, of a] by (metis list.set_intros(1))
  have obj: "roomObject ?s2 k room = ?r"
    using r2 by (simp add: roomObject_def)
  have st: "chatRooms (fst (leave s e a \<lparr>rd_user = n, rd_room = k\<rparr>)) = chatRooms (fst ?g)"
    using room own obj by (simp add: leave_def Let_def)
  have "set (snd (snd (snd ?g))) \<subseteq> set (snd (leave s e a \<lparr>rd_user = n, rd_room = k\<rparr>))"
    using room own obj by (auto simp: leave_def Let_def)
  with S st same new show "succession s k room a (now e) (leave s e a \<lparr>rd_user = n, rd_room = k\<rparr>)"
    unfolding succession_def list_all_iff connected_iff by auto
next
  fix cu
  assume cu: "map_of (connectedUsers s) a = Some cu \<and> cu_room cu = k \<and> cu_isOwner cu"
  let ?s0 = "s\<lparr>sockets := AList.delete a (sockets s)\<rparr>"
  let ?s1 = "fst (removeUserFromRoom ?s0 k a)"
  let ?r = "room\<lparr>users := remaining a room\<rparr>"
  let ?g = "ownerGone ?s1 e k ?r"
  have r0: "map_of (chatRooms ?s0) k = Some room"
    using room by simp
  have r1: "map_of (chatRooms ?s1) k = Some ?r"
    using r0 dist by (rule removeUserFromRoom_room)
  have same: "\<And>u. u \<in> set (remaining a room) \<Longrightarrow>
                map_of (sockets ?s1) (socketId u) = map_of (sockets s) (socketId u)"
    by (simp add: remaining_not_gone)
  have joined1: "\<forall>u \<in> set (remaining a room).
                   \<forall>rs. map_of (sockets ?s1) (socketId u) = Some rs \<longrightarrow> k \<in> set rs"
    using joined same by simp
  note S = succession_after_removal [OF r1 two dist joined1 refl, of e]
  have new: "hd (remaining a room) \<in> set (remaining a room)"
    using remaining_hd [OF two dist, of a] by (metis list.set_intros(1))
  have obj: "roomObject ?s1 k room = ?r"
    using r1 by (simp add: roomObject_def)
  have st: "chatRooms (fst (disconnect s e a)) = chatRooms (fst ?g)"
    using r0 cu obj by (simp add: disconnect_def Let_def)
  have "set (snd (snd (snd ?g))) \<subseteq> set (snd (disconnect s e a))"
    using r0 cu obj by (auto simp: disconnect_def Let_def)
  with S st same new show "succession s k room a (now e) (disconnect s e a)"
    unfolding succession_def list_all_iff connected_iff by auto
qed

text \<open>
  The succession rule where the handlers keep it. In a reachable state a room has at
  least two members and \<open>a\<close> is its owner. When \<open>a\<close> leaves the room, and likewise
  when \<open>a\<close> disconnects while its entry of \<open>connectedUsers\<close> names the room, the
  succession rule holds of the outcome: the first of the remaining members is the
  owner; it is sent \<open>ownership transferred\<close>; and all remaining members, the new owner
  among them, are sent \<open>owner changed\<close> with the new owner's name. The events reach
  the members that are connected.
\<close>

theorem owner_succession:
  assumes reach: "reachable s"
    and room: "map_of (chatRooms s) k = Some room"
    and own: "owner room = a"
    and two: "2 \<le> length (users room)"
  shows "succession s k room a (now e) (leave s e a \<lparr>rd_user = n, rd_room = k\<rparr>) \<and>
         (\<forall>cu. map_of (connectedUsers s) a = Some cu \<and> cu_room cu = k \<longrightarrow>
               succession s k room a (now e) (disconnect s e a))"
proof -
  from reach have inv: "inv_members s" "inv_joined s" "inv_flag s"
    by (simp_all add: reachable_inv)
  from inv(1) room have dist: "distinct (map socketId (users room))"
    by (auto simp: inv_members_def)
  have joined: "\<forall>u \<in> set (remaining a room).
                  \<forall>rs. map_of (sockets s) (socketId u) = Some rs \<longrightarrow> k \<in> set rs"
  proof (intro ballI allI impI)
    fix u rs
    assume u: "u \<in> set (remaining a room)" and rs: "map_of (sockets s) (socketId u) = Some rs"
    from u have "socketId u \<in> socketId ` set (users room)"
      by (auto simp: remaining_def)
    with inv(2) rs room show "k \<in> set rs"
      unfolding inv_joined_def by blast
  qed
  note L = succession_of_owner [OF room own two dist joined, of e n]
  have "cu_isOwner cu" if "map_of (connectedUsers s) a = Some cu" "cu_room cu = k" for cu
    using inv(3) that room own unfolding inv_flag_def by blast
  with L show ?thesis
    by blast
qed

theorem owner_succession_witness:
  "map_of (chatRooms (fst (leave lobby_ABC (at 4 ''room_2'') ''A''
                             \<lparr>rd_user = ''alice'', rd_room = ''room_1''\<rparr>))) ''room_1'' =
     Some \<lparr>rid = ''room_1'', rname = ''Lobby'', owner = ''B'', ownerName = ''bob'',
           users = [\<lparr>socketId = ''B'', nickname = ''bob'', joinedAt = 2, isOwner = False\<rparr>,
                    \<lparr>socketId = ''C'', nickname = ''carol'', joinedAt = 3, isOwner = False\<rparr>],
           createdAt = 1, isPrivate = False\<rparr> \<and>
   (''B'', OwnershipTransferred ''room_1'' ''Lobby'' 4)
     \<in> set (snd (leave lobby_ABC (at 4 ''room_2'') ''A''
                    \<lparr>rd_user = ''alice'', rd_room = ''room_1''\<rparr>)) \<and>
   (''B'', OwnerChanged ''bob'' 4)
     \<in> set (snd (leave lobby_ABC (at 4 ''room_2'') ''A''
                    \<lparr>rd_user = ''alice'', rd_room = ''room_1''\<rparr>)) \<and>
   (''C'', OwnerChanged ''bob'' 4)
     \<in> set (snd (leave lobby_ABC (at 4 ''room_2'') ''A''
                    \<lparr>rd_user = ''alice'', rd_room = ''room_1''\<rparr>)) \<and>
   map_of (chatRooms (fst (disconnect lobby_ABC (at 4 ''room_2'') ''A''))) ''room_1'' =
     Some \<lparr>rid = ''room_1'', rname = ''Lobby'', owner = ''B'', ownerName = ''bob'',
           users = [\<lparr>socketId = ''B'', nickname = ''bob'', joinedAt = 2, isOwner = False\<rparr>,
                    \<lparr>socketId = ''C'', nickname = ''carol'', joinedAt = 3, isOwner = False\<rparr>],
           createdAt = 1, isPrivate = False\<rparr> \<and>
   (''B'', OwnershipTransferred ''room_1'' ''Lobby'' 4)
     \<in> set (snd (disconnect lobby_ABC (at 4 ''room_2'') ''A'')) \<and>
   (''B'', OwnerChanged ''bob'' 4) \<in> set (snd (disconnect lobby_ABC (at 4 ''room_2'') ''A'')) \<and>
   (''C'', OwnerChanged ''bob'' 4) \<in> set (snd (disconnect lobby_ABC (at 4 ''room_2'') ''A''))"
proof -
  let ?room = "\<lparr>rid = ''room_1'', rname = ''Lobby'', owner = ''A'', ownerName = ''alice'',
      users = [\<lparr>socketId = ''A'', nickname = ''alice'', joinedAt = 1, isOwner = True\<rparr>,
               \<lparr>socketId = ''B'', nickname = ''bob'', joinedAt = 2, isOwner = False\<rparr>,
               \<lparr>socketId = ''C'', nickname = ''carol'', joinedAt = 3, isOwner = False\<rparr>],
      createdAt = 1, isPrivate = False\<rparr>"
  have room: "map_of (chatRooms lobby_ABC) ''room_1'' = Some ?room"
    by (simp add: lobby_ABC_eq)
  have own: "owner ?room = ''A''"
    by simp
  have two: "2 \<le> length (users ?room)"
    by simp
  have rem: "remaining ''A'' ?room =
     [\<lparr>socketId = ''B'', nickname = ''bob'', joinedAt = 2, isOwner = False\<rparr>,
      \<lparr>socketId = ''C'', nickname = ''carol'', joinedAt = 3, isOwner = False\<rparr>]"
    by (simp add: remaining_def)
  have conn: "connected lobby_ABC ''B''" "connected lobby_ABC ''C''"
    by (simp_all add: lobby_ABC_eq connected_def)
  have cu: "map_of (connectedUsers lobby_ABC) ''A'' =
              Some \<lparr>username = ''alice'', cu_room = ''room_1'', cu_isOwner = True\<rparr>"
    by (simp add: lobby_ABC_eq)
  from owner_succession [OF reachable_lobby_ABC room own two, of "at 4 ''room_2''" "''alice''"]
    cu rem conn
  show ?thesis
    by (simp add: now_at succession_def)
qed

text \<open>
  C1, at a failing input. Alice owns the Lobby, where Bob is too, and has created a
  second room without leaving the Lobby: \<open>create room\<close> makes her entry of
  \<open>connectedUsers\<close> name the new room and leaves her among the users of the Lobby.
  Her socket closes. \<open>disconnect\<close> cleans the room her entry names and no other: the
  Lobby, a room with two members whose owner has disconnected, keeps Alice as its owner
  and among its users, although her socket is no longer connected, and all that Bob is
  sent is the rooms list: no \<open>ownership transferred\<close>, no \<open>owner changed\<close>.
\<close>

theorem disconnect_after_create_room_keeps_owner:
  "map_of (chatRooms owner_elsewhere) ''room_1'' =
     Some \<lparr>rid = ''room_1'', rname = ''Lobby'', owner = ''A'', ownerName = ''alice'',
           users = [\<lparr>socketId = ''A'', nickname = ''alice'', joinedAt = 1, isOwner = True\<rparr>,
                    \<lparr>socketId = ''B'', nickname = ''bob'', joinedAt = 2, isOwner = False\<rparr>],
           createdAt = 1, isPrivate = False\<rparr> \<and>
   map_of (chatRooms (fst (disconnect owner_elsewhere (at 4 ''room_3'') ''A''))) ''room_1'' =
     Some \<lparr>rid = ''room_1'', rname = ''Lobby'', owner = ''A'', ownerName = ''alice'',
           users = [\<lparr>socketId = ''A'', nickname = ''alice'', joinedAt = 1, isOwner = True\<rparr>,
                    \<lparr>socketId = ''B'', nickname = ''bob'', joinedAt = 2, isOwner = False\<rparr>],
           createdAt = 1, isPrivate = False\<rparr> \<and>
   map fst (sockets (fst (disconnect owner_elsewhere (at 4 ''room_3'') ''A''))) = [''B'', ''C''] \<and>
   map snd (filter (\<lambda>x. fst x = ''B'')
              (snd (disconnect owner_elsewhere (at 4 ''room_3'') ''A''))) =
     [RoomsList
        [\<lparr>rs_id = ''room_1'', rs_name = ''Lobby'', rs_owner = ''alice'', userCount = 2,
          rs_users = [''alice'', ''bob''], rs_createdAt = 1, rs_isPrivate = False\<rparr>] 1 4]"
  by (simp add: owner_elsewhere_eq run_defs)

subsection \<open>Joining a second room\<close>

text \<open>
  C2, at a failing input. Alice owns the Lobby, where Bob is too, and Carol has a room
  of her own. Alice joins Carol's room. The Lobby keeps Alice as its owner although
  she is no longer among its users, and all that Bob is sent is the rooms list: no
  \<open>user left\<close>, no \<open>ownership transferred\<close>, no \<open>owner changed\<close>. When Alice is
  alone in the Lobby and joins Carol's room, the Lobby stays in the store without
  users.
\<close>

theorem join_other_room_no_leave_sequence:
  "map_of (chatRooms (fst (join two_rooms (at 4 ''room_3'') ''A''
                             \<lparr>rd_user = ''alice'', rd_room = ''room_2''\<rparr>))) ''room_1'' =
     Some \<lparr>rid = ''room_1'', rname = ''Lobby'', owner = ''A'', ownerName = ''alice'',
           users = [\<lparr>socketId = ''B'', nickname = ''bob'', joinedAt = 2, isOwner = False\<rparr>],
           createdAt = 1, isPrivate = False\<rparr> \<and>
   map snd (filter (\<lambda>x. fst x = ''B'')
              (snd (join two_rooms (at 4 ''room_3'') ''A''
                      \<lparr>rd_user = ''alice'', rd_room = ''room_2''\<rparr>))) =
     [RoomsList
        [\<lparr>rs_id = ''room_1'', rs_name = ''Lobby'', rs_owner = ''alice'', userCount = 1,
          rs_users = [''bob''], rs_createdAt = 1, rs_isPrivate = False\<rparr>,
         \<lparr>rs_id = ''room_2'', rs_name = ''Games'', rs_owner = ''carol'', userCount = 2,
          rs_users = [''carol'', ''alice''], rs_createdAt = 3, rs_isPrivate = False\<rparr>] 2 4] \<and>
   map_of (chatRooms (fst (join two_single (at 4 ''room_3'') ''A''
                             \<lparr>rd_user = ''alice'', rd_room = ''room_2''\<rparr>))) ''room_1'' =
     Some \<lparr>rid = ''room_1'', rname = ''Lobby'', owner = ''A'', ownerName = ''alice'',
           users = [], createdAt = 1, isPrivate = False\<rparr>"
  by (simp add: two_rooms_eq two_single_eq run_defs)

text \<open>
  C3, at a failing input. No room of the reachable state \<open>two_single\<close> is without
  users. After the one event in which Alice, alone in the Lobby, joins Carol's room, a
  room without users is in the store. (Lemma \<open>rooms_kept\<close>: from a reachable state
  whose rooms have members and their first member as owner, every event that is not
  such a join of an owner leads to a state of that kind.)
\<close>

theorem join_other_room_leaves_empty_room:
  "\<not> list_ex (\<lambda>r. users (snd r) = []) (chatRooms two_single) \<and>
   list_ex (\<lambda>r. users (snd r) = [])
     (chatRooms (fst (join two_single (at 4 ''room_3'') ''A''
                        \<lparr>rd_user = ''alice'', rd_room = ''room_2''\<rparr>)))"
  by (simp add: two_single_eq run_defs)

text \<open>
  C4, at a failing input. In the reachable state \<open>two_rooms\<close> the owner of each room is
  its first member. After the one event in which Alice joins Carol's room, the owner
  of the Lobby is still Alice's socket, and the only member of the Lobby is Bob's.
  (Lemma \<open>owner_moves_breaks\<close>: a join by which the owner of a room goes over to
  another room always leaves a room without members or with an owner that is not its
  first member.)
\<close>

theorem join_other_room_leaves_absent_owner:
  "map (\<lambda>r. (owner (snd r), map socketId (users (snd r)))) (chatRooms two_rooms) =
     [(''A'', [''A'', ''B'']), (''C'', [''C''])] \<and>
   map (\<lambda>r. (owner (snd r), map socketId (users (snd r))))
     (chatRooms (fst (join two_rooms (at 4 ''room_3'') ''A''
                        \<lparr>rd_user = ''alice'', rd_room = ''room_2''\<rparr>))) =
     [(''A'', [''B'']), (''C'', [''C'', ''A''])]"
  by (simp add: two_rooms_eq run_defs)

subsection \<open>A room name that is taken\<close>

lemma name_exists_refused:
  assumes "map_of (chatRooms s) k = Some room"
    and "rname room \<noteq> []"
    and "toLowerCase e (trim (roomName d)) = toLowerCase e (rname room)"
    and "\<forall>x. (toLowerCase e x = []) = (x = [])"
  shows "create_room s e a d = (s, [(a, RoomCreationFailed ''ROOM_NAME_EXISTS'')])"
proof -
  from assms(2) assms(4) have "toLowerCase e (rname room) \<noteq> []"
    by simp
  with assms(3) have "toLowerCase e (trim (roomName d)) \<noteq> []"
    by simp
  with assms(4) have ne: "trim (roomName d) \<noteq> []"
    by simp
  then have ne': "roomName d \<noteq> []"
    by auto
  have "room \<in> set (map snd (chatRooms s))"
    using assms(1) by (force dest: map_of_SomeD)
  then have "list_ex (\<lambda>room. toLowerCase e (rname room) = toLowerCase e (trim (roomName d)))
               (map snd (chatRooms s))"
    unfolding list_ex_iff using assms(3) by metis
  with ne ne' show ?thesis
    by (simp add: create_room_def socket_emit_def)
qed

text \<open>
  C5. In a reachable state a room of the store has the name N. A \<open>create room\<close> whose
  trimmed name equals N case-insensitively, that is, has the lower-case form of N under
  \<open>String.prototype.toLowerCase\<close>, changes nothing, so the rooms and their number are
  what they were, and sends one event: \<open>room creation failed\<close> with the code
  \<open>ROOM_NAME_EXISTS\<close>, to the socket that asked. \<open>trim\<close> is the trimming of
  ECMAScript; the lower-casing is any function that, as the one of Unicode does, gives the
  empty string for the empty string and for no other.
\<close>

theorem create_room_name_exists:
  assumes "reachable s"
    and "map_of (chatRooms s) k = Some room"
    and "toLowerCase e (trim (roomName d)) = toLowerCase e (rname room)"
    and "\<forall>x. (toLowerCase e x = []) = (x = [])"
  shows "create_room s e a d = (s, [(a, RoomCreationFailed ''ROOM_NAME_EXISTS'')])"
proof -
  from assms(1) have "inv_names s"
    by (simp add: reachable_inv)
  with assms(2) have "rname room \<noteq> []"
    by (auto simp: inv_names_def)
  from assms(2) this assms(3) assms(4) show ?thesis
    by (rule name_exists_refused)
qed

text \<open>
  Bob asks for the name of the Lobby in capitals, with a no-break space (U+00A0) and a
  blank before it and an ideographic space (U+3000) and a line feed after it.
\<close>

theorem create_room_name_exists_witness:
  "reachable lobby_A \<and>
   map_of (chatRooms lobby_A) ''room_1'' =
     Some \<lparr>rid = ''room_1'', rname = ''Lobby'', owner = ''A'', ownerName = ''alice'',
           users = [\<lparr>socketId = ''A'', nickname = ''alice'', joinedAt = 1, isOwner = True\<rparr>],
           createdAt = 1, isPrivate = False\<rparr> \<and>
   trim ([CHR 0xC2, CHR 0xA0] @ '' LOBBY'' @ [CHR 0xE3, CHR 0x80, CHR 0x80, CHR 0x0A]) = ''LOBBY'' \<and>
   toLowerCase (at 4 ''room_2'') ''LOBBY'' = toLowerCase (at 4 ''room_2'') ''Lobby'' \<and>
   create_room lobby_A (at 4 ''room_2'') ''B''
     \<lparr>cd_user = ''bob'',
      roomName = [CHR 0xC2, CHR 0xA0] @ '' LOBBY'' @ [CHR 0xE3, CHR 0x80, CHR 0x80, CHR 0x0A]\<rparr> =
     (lobby_A, [(''B'', RoomCreationFailed ''ROOM_NAME_EXISTS'')])"
proof -
  let ?room = "\<lparr>rid = ''room_1'', rname = ''Lobby'', owner = ''A'', ownerName = ''alice'',
           users = [\<lparr>socketId = ''A'', nickname = ''alice'', joinedAt = 1, isOwner = True\<rparr>],
           createdAt = 1, isPrivate = False\<rparr>"
  let ?name = "[CHR 0xC2, CHR 0xA0] @ '' LOBBY'' @ [CHR 0xE3, CHR 0x80, CHR 0x80, CHR 0x0A]"
  have h1: "map_of (chatRooms lobby_A) ''room_1'' = Some ?room"
    by (simp add: lobby_A_eq)
  have tr: "trim ?name = ''LOBBY''"
    by (simp add: trim_def trimStart.simps whiteSpace_def)
  have lo: "toLowerCase (at 4 ''room_2'') ''LOBBY'' = toLowerCase (at 4 ''room_2'') ''Lobby''"
    by (simp add: toLowerCase_at asciiLower_def lowerChar_def)
  have h3: "toLowerCase (at 4 ''room_2'') (trim (roomName \<lparr>cd_user = ''bob'', roomName = ?name\<rparr>)) =
            toLowerCase (at 4 ''room_2'') (rname ?room)"
    using tr lo by simp
  have h4: "\<forall>x. (toLowerCase (at 4 ''room_2'') x = []) = (x = [])"
    by (simp add: toLowerCase_at)
  from reachable_lobby_A h1 tr lo
    create_room_name_exists [OF reachable_lobby_A h1 h3 h4, of "''B''"]
  show ?thesis by simp
qed

subsection \<open>Leaving a room that does not exist\<close>

text \<open>
  C6, as the code has it. When \<open>leave\<close> names a room that is not in \<open>chatRooms\<close>, the
  state does not change and the only thing sent is \<open>leave failed\<close> with the code
  \<open>ROOM_NOT_FOUND\<close>, to the socket that asked. The handler does not send
  \<open>leave confirmed\<close>.
\<close>

theorem leave_unknown_room:
  "map_of (chatRooms s) (rd_room d) = None \<Longrightarrow>
   leave s e a d = (s, [(a, LeaveFailed ''ROOM_NOT_FOUND'')])"
  by (simp add: leave_def socket_emit_def)

theorem leave_unknown_room_witness:
  "map_of (chatRooms lobby_A) (rd_room \<lparr>rd_user = ''bob'', rd_room = ''room_9''\<rparr>) = None \<and>
   leave lobby_A (at 4 ''room_2'') ''B'' \<lparr>rd_user = ''bob'', rd_room = ''room_9''\<rparr> =
     (lobby_A, [(''B'', LeaveFailed ''ROOM_NOT_FOUND'')])"
proof -
  have h: "map_of (chatRooms lobby_A) (rd_room \<lparr>rd_user = ''bob'', rd_room = ''room_9''\<rparr>) = None"
    by (simp add: lobby_A_eq)
  from h leave_unknown_room [OF h] show ?thesis by simp
qed

text \<open>
  C6 as the claim states it fails: Bob asks to leave a room that does not exist and
  receives \<open>leave failed\<close>, an error, and no confirmation.
\<close>

theorem leave_unknown_room_counterexample:
  "snd (leave lobby_A (at 4 ''room_2'') ''B'' \<lparr>rd_user = ''bob'', rd_room = ''room_9''\<rparr>) =
     [(''B'', LeaveFailed ''ROOM_NOT_FOUND'')]"
  by (simp add: lobby_A_eq leave_def socket_emit_def)

subsection \<open>Joining a room twice\<close>

text \<open>
  C7. When the socket is already in the \<open>users\<close> of the room it asks to join, the room
  object of that room is after the \<open>join\<close> what it was before: the same \<open>users\<close> in
  the same order with the same \<open>joinedAt\<close>, and the same owner.
\<close>

theorem join_again_keeps_room:
  assumes "map_of (chatRooms s) (rd_room d) = Some room"
    and "a \<in> socketId ` set (users room)"
  shows "map_of (chatRooms (fst (join s e a d))) (rd_room d) = Some room"
proof -
  from assms(2) have "findIndex (\<lambda>u. socketId u = a) (users room) \<noteq> None"
    by (auto simp: findIndex_None)
  then obtain i where i: "findIndex (\<lambda>u. socketId u = a) (users room) = Some i"
    by blast
  show ?thesis
    using assms(1) i
    by (simp add: join_def Let_def removeUserFromRoom_other split: option.splits)
qed

theorem join_again_keeps_room_witness:
  "map_of (chatRooms lobby_AB) (rd_room \<lparr>rd_user = ''bob'', rd_room = ''room_1''\<rparr>) =
     Some \<lparr>rid = ''room_1'', rname = ''Lobby'', owner = ''A'', ownerName = ''alice'',
           users = [\<lparr>socketId = ''A'', nickname = ''alice'', joinedAt = 1, isOwner = True\<rparr>,
                    \<lparr>socketId = ''B'', nickname = ''bob'', joinedAt = 2, isOwner = False\<rparr>],
           createdAt = 1, isPrivate = False\<rparr> \<and>
   map_of (chatRooms (fst (join lobby_AB (at 5 ''room_2'') ''B''
                             \<lparr>rd_user = ''bob'', rd_room = ''room_1''\<rparr>))) ''room_1'' =
     Some \<lparr>rid = ''room_1'', rname = ''Lobby'', owner = ''A'', ownerName = ''alice'',
           users = [\<lparr>socketId = ''A'', nickname = ''alice'', joinedAt = 1, isOwner = True\<rparr>,
                    \<lparr>socketId = ''B'', nickname = ''bob'', joinedAt = 2, isOwner = False\<rparr>],
           createdAt = 1, isPrivate = False\<rparr>"
proof -
  have h: "map_of (chatRooms lobby_AB) (rd_room \<lparr>rd_user = ''bob'', rd_room = ''room_1''\<rparr>) =
     Some \<lparr>rid = ''room_1'', rname = ''Lobby'', owner = ''A'', ownerName = ''alice'',
           users = [\<lparr>socketId = ''A'', nickname = ''alice'', joinedAt = 1, isOwner = True\<rparr>,
                    \<lparr>socketId = ''B'', nickname = ''bob'', joinedAt = 2, isOwner = False\<rparr>],
           createdAt = 1, isPrivate = False\<rparr>"
    by (simp add: lobby_AB_eq)
  from h join_again_keeps_room [OF h, of "''B''" "at 5 ''room_2''"] show ?thesis
    by simp
qed

subsection \<open>Chat messages\<close>

text \<open>
  C8. In a reachable state a message with a user, a text and a room is sent by the
  connected socket \<open>b\<close>, a member of that room. The state is unchanged, and the
  message, with the id and the time the server gave it (and the sender's socket id and
  owner flag), is sent to the members of the room that are connected and to nobody
  else. The sender \<open>b\<close> is one of them. When all members are connected, the sockets
  that are sent the message are the members of the room.
\<close>

theorem chat_message_fan_out:
  assumes reach: "reachable s"
    and valid: "msg_user m \<noteq> []" "message m \<noteq> []" "msg_room m \<noteq> []"
    and room: "map_of (chatRooms s) (msg_room m) = Some room"
    and mem: "b \<in> socketId ` set (users room)"
    and b: "connected s b"
  shows "fst (chat_message s e b m) = s \<and>
         set (snd (chat_message s e b m)) =
           (\<lambda>u. (socketId u, ChatMessage m (newMsgId e) (now e) b (owner room = b)))
             ` {u \<in> set (users room). connected s (socketId u)} \<and>
         (b, ChatMessage m (newMsgId e) (now e) b (owner room = b))
           \<in> set (snd (chat_message s e b m)) \<and>
         ((\<forall>u \<in> set (users room). connected s (socketId u)) \<longrightarrow>
          fst ` set (snd (chat_message s e b m)) = socketId ` set (users room))"
proof -
  let ?p = "ChatMessage m (newMsgId e) (now e) b (owner room = b)"
  let ?k = "msg_room m"
  from reach have inv: "inv_sockets s" "inv_joined s"
    by (simp_all add: reachable_inv)
  from mem have "find (\<lambda>u. socketId u = b) (users room) \<noteq> None"
    by (auto simp: find_None_iff)
  then obtain u0 where "find (\<lambda>u. socketId u = b) (users room) = Some u0"
    by blast
  with valid room have eq: "chat_message s e b m = (s, io_to s ?k ?p)"
    by (simp add: chat_message_def)
  have out: "set (io_to s ?k ?p) =
               (\<lambda>u. (socketId u, ?p)) ` {u \<in> set (users room). connected s (socketId u)}"
  proof (intro equalityI subsetI)
    fix x
    assume "x \<in> set (io_to s ?k ?p)"
    then obtain c where c: "c \<in> set (sockets s)" "?k \<in> set (snd c)" "x = (fst c, ?p)"
      by (auto simp: io_to_def)
    from inv(1) c(1) have "map_of (sockets s) (fst c) = Some (snd c)"
      by (simp add: inv_sockets_def)
    with inv(2) c(2) obtain r where "map_of (chatRooms s) ?k = Some r"
      "fst c \<in> socketId ` set (users r)"
      unfolding inv_joined_def by blast
    with room obtain u where u: "u \<in> set (users room)" "socketId u = fst c"
      by auto
    from c(1) have "connected s (fst c)"
      by (simp add: connected_def)
    with u have "u \<in> {u \<in> set (users room). connected s (socketId u)}"
      by simp
    then have "(socketId u, ?p) \<in>
                 (\<lambda>u. (socketId u, ?p)) ` {u \<in> set (users room). connected s (socketId u)}"
      by (rule imageI)
    with u(2) c(3) show
      "x \<in> (\<lambda>u. (socketId u, ?p)) ` {u \<in> set (users room). connected s (socketId u)}"
      by simp
  next
    fix x
    assume "x \<in> (\<lambda>u. (socketId u, ?p)) ` {u \<in> set (users room). connected s (socketId u)}"
    then obtain u where u: "u \<in> set (users room)" "connected s (socketId u)"
      "x = (socketId u, ?p)"
      by auto
    from u(2) obtain rs where rs: "map_of (sockets s) (socketId u) = Some rs"
      by (auto simp: connected_iff)
    from u(1) have "socketId u \<in> socketId ` set (users room)"
      by simp
    with inv(2) rs room have "?k \<in> set rs"
      unfolding inv_joined_def by blast
    with rs u(3) show "x \<in> set (io_to s ?k ?p)"
      by (auto simp: in_io_to dest: map_of_SomeD)
  qed
  from mem b have "(b, ?p) \<in> (\<lambda>u. (socketId u, ?p)) ` {u \<in> set (users room). connected s (socketId u)}"
    by auto
  moreover have "fst ` (\<lambda>u. (socketId u, ?p)) ` {u \<in> set (users room). connected s (socketId u)} =
                 socketId ` set (users room)"
    if "\<forall>u \<in> set (users room). connected s (socketId u)"
    using that by force
  ultimately show ?thesis
    unfolding eq using out by simp
qed

theorem chat_message_fan_out_witness:
  "fst (chat_message lobby_ABC (at 5 ''room_2'') ''B''
          \<lparr>msg_user = ''bob'', msg_room = ''room_1'', message = ''hello'', timestamp = 4\<rparr>) =
     lobby_ABC \<and>
   set (snd (chat_message lobby_ABC (at 5 ''room_2'') ''B''
          \<lparr>msg_user = ''bob'', msg_room = ''room_1'', message = ''hello'', timestamp = 4\<rparr>)) =
     {(''A'', ChatMessage
               \<lparr>msg_user = ''bob'', msg_room = ''room_1'', message = ''hello'', timestamp = 4\<rparr>
               ''msg_1'' 5 ''B'' False),
      (''B'', ChatMessage
               \<lparr>msg_user = ''bob'', msg_room = ''room_1'', message = ''hello'', timestamp = 4\<rparr>
               ''msg_1'' 5 ''B'' False),
      (''C'', ChatMessage
               \<lparr>msg_user = ''bob'', msg_room = ''room_1'', message = ''hello'', timestamp = 4\<rparr>
               ''msg_1'' 5 ''B'' False)}"
proof -
  let ?m = "\<lparr>msg_user = ''bob'', msg_room = ''room_1'', message = ''hello'', timestamp = 4\<rparr>"
  let ?room = "\<lparr>rid = ''room_1'', rname = ''Lobby'', owner = ''A'', ownerName = ''alice'',
      users = [\<lparr>socketId = ''A'', nickname = ''alice'', joinedAt = 1, isOwner = True\<rparr>,
               \<lparr>socketId = ''B'', nickname = ''bob'', joinedAt = 2, isOwner = False\<rparr>,
               \<lparr>socketId = ''C'', nickname = ''carol'', joinedAt = 3, isOwner = False\<rparr>],
      createdAt = 1, isPrivate = False\<rparr>"
  have valid: "msg_user ?m \<noteq> []" "message ?m \<noteq> []" "msg_room ?m \<noteq> []"
    by simp_all
  have room: "map_of (chatRooms lobby_ABC) (msg_room ?m) = Some ?room"
    by (simp add: lobby_ABC_eq)
  have mem: "''B'' \<in> socketId ` set (users ?room)"
    by simp
  have b: "connected lobby_ABC ''B''"
    by (simp add: lobby_ABC_eq connected_def)
  have all: "{u \<in> set (users ?room). connected lobby_ABC (socketId u)} = set (users ?room)"
    by (auto simp: lobby_ABC_eq connected_def)
  from chat_message_fan_out [OF reachable_lobby_ABC valid room mem b, of "at 5 ''room_2''"]
  show ?thesis
    unfolding all by (simp add: at_def)
qed

subsection \<open>A socket disconnects\<close>





subsection \<open>The rooms list goes to everyone\<close>

text \<open>
  C10. A \<open>create room\<close> that passes both checks, and a \<open>join\<close> or a \<open>leave\<close> of a room
  that exists, send the \<open>rooms list\<close> event, built from the state the handler leaves
  behind, to every connected socket. \<open>get rooms\<close> sends it to the asking socket alone
  and changes nothing.
\<close>

theorem rooms_list_broadcast:
  "(roomName cd \<noteq> [] \<and> trim (roomName cd) \<noteq> [] \<and>
    \<not> list_ex (\<lambda>room. toLowerCase e (rname room) = toLowerCase e (trim (roomName cd)))
        (map snd (chatRooms s)) \<longrightarrow>
    (\<forall>t \<in> fst ` set (sockets s).
       (t, RoomsList (roomsList (fst (create_room s e a cd)))
             (length (roomsList (fst (create_room s e a cd)))) (now e))
       \<in> set (snd (create_room s e a cd)))) \<and>
   (map_of (chatRooms s) (rd_room jd) \<noteq> None \<longrightarrow>
    (\<forall>t \<in> fst ` set (sockets s).
       (t, RoomsList (roomsList (fst (join s e b jd)))
             (length (roomsList (fst (join s e b jd)))) (now e))
       \<in> set (snd (join s e b jd)))) \<and>
   (map_of (chatRooms s) (rd_room ld) \<noteq> None \<longrightarrow>
    (\<forall>t \<in> fst ` set (sockets s).
       (t, RoomsList (roomsList (fst (leave s e c ld)))
             (length (roomsList (fst (leave s e c ld)))) (now e))
       \<in> set (snd (leave s e c ld)))) \<and>
   get_rooms s e g = (s, [(g, RoomsList (roomsList s) (length (roomsList s)) (now e))])"
proof (intro conjI impI ballI)
  fix t
  assume ok: "roomName cd \<noteq> [] \<and> trim (roomName cd) \<noteq> [] \<and>
    \<not> list_ex (\<lambda>room. toLowerCase e (rname room) = toLowerCase e (trim (roomName cd)))
        (map snd (chatRooms s))"
    and t: "t \<in> fst ` set (sockets s)"
  from ok obtain pre where
    "snd (create_room s e a cd) = pre @ broadcastRoomsList (fst (create_room s e a cd)) e"
    using create_room_out by blast
  then show "(t, RoomsList (roomsList (fst (create_room s e a cd)))
             (length (roomsList (fst (create_room s e a cd)))) (now e))
       \<in> set (snd (create_room s e a cd))"
    using broadcast_reaches [OF _ create_room_sockets t] by blast
next
  fix t
  assume ok: "map_of (chatRooms s) (rd_room jd) \<noteq> None" and t: "t \<in> fst ` set (sockets s)"
  from ok obtain pre where
    "snd (join s e b jd) = pre @ broadcastRoomsList (fst (join s e b jd)) e"
    using join_out by blast
  then show "(t, RoomsList (roomsList (fst (join s e b jd)))
             (length (roomsList (fst (join s e b jd)))) (now e))
       \<in> set (snd (join s e b jd))"
    using broadcast_reaches [OF _ join_sockets t] by blast
next
  fix t
  assume ok: "map_of (chatRooms s) (rd_room ld) \<noteq> None" and t: "t \<in> fst ` set (sockets s)"
  from ok obtain pre where
    "snd (leave s e c ld) = pre @ broadcastRoomsList (fst (leave s e c ld)) e"
    using leave_out by blast
  then show "(t, RoomsList (roomsList (fst (leave s e c ld)))
             (length (roomsList (fst (leave s e c ld)))) (now e))
       \<in> set (snd (leave s e c ld))"
    using broadcast_reaches [OF _ leave_sockets t] by blast
next
  show "get_rooms s e g = (s, [(g, RoomsList (roomsList s) (length (roomsList s)) (now e))])"
    by (simp add: get_rooms_def sendRoomsListToClient_def socket_emit_def)
qed

theorem rooms_list_broadcast_witness:
  "(''A'', RoomsList
            [\<lparr>rs_id = ''room_1'', rs_name = ''Lobby'', rs_owner = ''alice'', userCount = 2,
              rs_users = [''alice'', ''bob''], rs_createdAt = 1, rs_isPrivate = False\<rparr>,
             \<lparr>rs_id = ''room_2'', rs_name = ''Games'', rs_owner = ''carol'', userCount = 1,
              rs_users = [''carol''], rs_createdAt = 3, rs_isPrivate = False\<rparr>] 2 3)
     \<in> set (snd (create_room lobby_AB (at 3 ''room_2'') ''C''
                    \<lparr>cd_user = ''carol'', roomName = ''Games''\<rparr>)) \<and>
   (''A'', RoomsList
            [\<lparr>rs_id = ''room_1'', rs_name = ''Lobby'', rs_owner = ''alice'', userCount = 3,
              rs_users = [''alice'', ''bob'', ''carol''], rs_createdAt = 1,
              rs_isPrivate = False\<rparr>] 1 3)
     \<in> set (snd (join lobby_AB (at 3 ''room_2'') ''C''
                    \<lparr>rd_user = ''carol'', rd_room = ''room_1''\<rparr>)) \<and>
   (''A'', RoomsList
            [\<lparr>rs_id = ''room_1'', rs_name = ''Lobby'', rs_owner = ''alice'', userCount = 1,
              rs_users = [''alice''], rs_createdAt = 1, rs_isPrivate = False\<rparr>] 1 3)
     \<in> set (snd (leave lobby_AB (at 3 ''room_2'') ''B''
                    \<lparr>rd_user = ''bob'', rd_room = ''room_1''\<rparr>)) \<and>
   get_rooms lobby_AB (at 3 ''room_2'') ''C'' =
     (lobby_AB,
      [(''C'', RoomsList
                [\<lparr>rs_id = ''room_1'', rs_name = ''Lobby'', rs_owner = ''alice'', userCount = 2,
                  rs_users = [''alice'', ''bob''], rs_createdAt = 1,
                  rs_isPrivate = False\<rparr>] 1 3)])"
proof -
  have ok: "roomName \<lparr>cd_user = ''carol'', roomName = ''Games''\<rparr> \<noteq> [] \<and>
      trim (roomName \<lparr>cd_user = ''carol'', roomName = ''Games''\<rparr>) \<noteq> [] \<and>
      \<not> list_ex (\<lambda>room. toLowerCase (at 3 ''room_2'') (rname room) =
                    toLowerCase (at 3 ''room_2'')
                      (trim (roomName \<lparr>cd_user = ''carol'', roomName = ''Games''\<rparr>)))
          (map snd (chatRooms lobby_AB))"
    by (simp add: lobby_AB_eq trim_def trimStart.simps whiteSpace_def toLowerCase_at
          asciiLower_def lowerChar_def)
  have roomC: "map_of (chatRooms lobby_AB)
                 (rd_room \<lparr>rd_user = ''carol'', rd_room = ''room_1''\<rparr>) \<noteq> None"
    by (simp add: lobby_AB_eq)
  have roomB: "map_of (chatRooms lobby_AB)
                 (rd_room \<lparr>rd_user = ''bob'', rd_room = ''room_1''\<rparr>) \<noteq> None"
    by (simp add: lobby_AB_eq)
  have A: "''A'' \<in> fst ` set (sockets lobby_AB)"
    by (simp add: lobby_AB_eq)
  have list: "roomsList lobby_AB =
     [\<lparr>rs_id = ''room_1'', rs_name = ''Lobby'', rs_owner = ''alice'', userCount = 2,
       rs_users = [''alice'', ''bob''], rs_createdAt = 1, rs_isPrivate = False\<rparr>]"
    by (simp add: lobby_AB_eq roomsList_def summary_def)
  note th = rooms_list_broadcast [of "\<lparr>cd_user = ''carol'', roomName = ''Games''\<rparr>"
        "at 3 ''room_2''" lobby_AB "''C''" "\<lparr>rd_user = ''carol'', rd_room = ''room_1''\<rparr>" "''C''"
        "\<lparr>rd_user = ''bob'', rd_room = ''room_1''\<rparr>" "''B''" "''C''"]
  from th ok A have c1:
    "(''A'', RoomsList (roomsList (fst (create_room lobby_AB (at 3 ''room_2'') ''C''
                                         \<lparr>cd_user = ''carol'', roomName = ''Games''\<rparr>)))
              (length (roomsList (fst (create_room lobby_AB (at 3 ''room_2'') ''C''
                                         \<lparr>cd_user = ''carol'', roomName = ''Games''\<rparr>))))
              (now (at 3 ''room_2'')))
       \<in> set (snd (create_room lobby_AB (at 3 ''room_2'') ''C''
                      \<lparr>cd_user = ''carol'', roomName = ''Games''\<rparr>))"
    by blast
  from th roomC A have c2:
    "(''A'', RoomsList (roomsList (fst (join lobby_AB (at 3 ''room_2'') ''C''
                                         \<lparr>rd_user = ''carol'', rd_room = ''room_1''\<rparr>)))
              (length (roomsList (fst (join lobby_AB (at 3 ''room_2'') ''C''
                                         \<lparr>rd_user = ''carol'', rd_room = ''room_1''\<rparr>))))
              (now (at 3 ''room_2'')))
       \<in> set (snd (join lobby_AB (at 3 ''room_2'') ''C''
                      \<lparr>rd_user = ''carol'', rd_room = ''room_1''\<rparr>))"
    by blast
  from th roomB A have c3:
    "(''A'', RoomsList (roomsList (fst (leave lobby_AB (at 3 ''room_2'') ''B''
                                         \<lparr>rd_user = ''bob'', rd_room = ''room_1''\<rparr>)))
              (length (roomsList (fst (leave lobby_AB (at 3 ''room_2'') ''B''
                                         \<lparr>rd_user = ''bob'', rd_room = ''room_1''\<rparr>))))
              (now (at 3 ''room_2'')))
       \<in> set (snd (leave lobby_AB (at 3 ''room_2'') ''B''
                      \<lparr>rd_user = ''bob'', rd_room = ''room_1''\<rparr>))"
    by blast
  from th have c4:
    "get_rooms lobby_AB (at 3 ''room_2'') ''C'' =
       (lobby_AB, [(''C'', RoomsList (roomsList lobby_AB) (length (roomsList lobby_AB))
                             (now (at 3 ''room_2'')))])"
    by blast
  from c1 c2 c3 c4 show ?thesis
    by (simp add: rooms_list_after_create rooms_list_after_join rooms_list_after_leave list
          now_at numeral_2_eq_2)
qed

end
